theory Spec2Isabelle
  imports Complex_Main "HOL-Library.Word"
begin

section \<open>Values and errors of the numeric layer\<close>

text \<open>
  The program (Lab04.py) works on NumPy arrays of 64-bit floats and of unsigned bytes.
  Floats are modelled by exact reals, extended by the three special values that a
  NumPy division by zero produces (a warning, never an exception). Python exceptions
  are values of \<open>py_error\<close>; a function that can raise returns \<open>py_error + 'a\<close>.
\<close>

datatype py_error = ValueError | ZeroDivisionError

datatype np_float = Num real | PosInf | NegInf | NaN

type_synonym 'a array2 = "'a list list"

type_synonym uint8 = "8 word"

text \<open>\<open>numpy.float64.__truediv__\<close>: a zero divisor gives \<open>nan\<close> or a signed infinity.\<close>

definition np_true_divide :: "real \<Rightarrow> real \<Rightarrow> np_float" where
  "np_true_divide n d =
     (if d = 0 then (if n = 0 then NaN else if 0 < n then PosInf else NegInf)
      else Num (n / d))"

text \<open>Comparison \<open>a > b\<close> of two floats: false as soon as one side is \<open>nan\<close>.\<close>

fun np_greater :: "np_float \<Rightarrow> np_float \<Rightarrow> bool" where
  "np_greater NaN _ = False"
| "np_greater _ NaN = False"
| "np_greater (Num a) (Num b) = (b < a)"
| "np_greater PosInf PosInf = False"
| "np_greater PosInf _ = True"
| "np_greater NegInf _ = False"
| "np_greater (Num a) NegInf = True"
| "np_greater (Num a) PosInf = False"

subsection \<open>Broadcasting of element-wise operations\<close>

text \<open>
  A two-dimensional array is a list of rows; its shape is the number of rows and the
  length of the first row (an array without rows has shape (0, 0)). NumPy combines two
  arrays element-wise when, in every dimension, the sizes are equal or one of them is 1;
  a dimension of size 1 is stretched. Any other combination raises \<open>ValueError\<close>.
\<close>

definition ncols :: "'a array2 \<Rightarrow> nat" where
  "ncols A = (case A of [] \<Rightarrow> 0 | r # _ \<Rightarrow> length r)"

definition is_array :: "'a array2 \<Rightarrow> bool" where
  "is_array A = list_all (\<lambda>r. length r = ncols A) A"

definition has_shape :: "nat \<Rightarrow> nat \<Rightarrow> 'a array2 \<Rightarrow> bool" where
  "has_shape r c A = (length A = r \<and> list_all (\<lambda>row. length row = c) A)"

definition broadcast_dim :: "nat \<Rightarrow> nat \<Rightarrow> nat option" where
  "broadcast_dim m n =
     (if m = n then Some m else if m = 1 then Some n else if n = 1 then Some m else None)"

definition stretch :: "nat \<Rightarrow> 'a list \<Rightarrow> 'a list" where
  "stretch n xs = (if length xs = n then xs else replicate n (hd xs))"

definition np_binop1 ::
  "('a \<Rightarrow> 'b \<Rightarrow> 'c) \<Rightarrow> 'a list \<Rightarrow> 'b list \<Rightarrow> py_error + 'c list" where
  "np_binop1 f a b =
     (case broadcast_dim (length a) (length b) of
        None \<Rightarrow> Inl ValueError
      | Some n \<Rightarrow> Inr (map2 f (stretch n a) (stretch n b)))"

definition np_binop2 ::
  "('a \<Rightarrow> 'b \<Rightarrow> 'c) \<Rightarrow> 'a array2 \<Rightarrow> 'b array2 \<Rightarrow> py_error + 'c array2" where
  "np_binop2 f A B =
     (case (broadcast_dim (length A) (length B), broadcast_dim (ncols A) (ncols B)) of
        (Some r, Some c) \<Rightarrow>
          Inr (map2 (map2 f) (stretch r (map (stretch c) A)) (stretch r (map (stretch c) B)))
      | _ \<Rightarrow> Inl ValueError)"

text \<open>\<open>ndarray.flatten\<close> (row-major) and \<open>numpy.mean\<close>; the mean of no element is \<open>nan\<close>.\<close>

definition flatten :: "'a array2 \<Rightarrow> 'a list" where
  "flatten A = concat A"

definition np_mean :: "real list \<Rightarrow> np_float" where
  "np_mean xs = np_true_divide (sum_list xs) (real (length xs))"

section \<open>Detection threshold and correlation\<close>

text \<open>\<open>process_threshold\<close>: 1 if \<open>x > 0.1\<close>, else 0.\<close>

definition process_threshold :: "np_float \<Rightarrow> nat" where
  "process_threshold x = (if np_greater x (Num (1 / 10)) then 1 else 0)"

text \<open>
  \<open>calculate_proximity\<close>. Python's builtin \<open>sum\<close> starts from the integer 0, so over an
  empty array it returns a Python integer and the division is Python's, which raises
  \<open>ZeroDivisionError\<close>; as soon as one array has an element, the divisor is a NumPy
  float and the division is NumPy's.
\<close>

definition calculate_proximity :: "real list \<Rightarrow> real list \<Rightarrow> py_error + np_float" where
  "calculate_proximity first_cvz second_cvz =
     (case np_binop1 (*) first_cvz second_cvz of
        Inl e \<Rightarrow> Inl e
      | Inr products \<Rightarrow>
          (let numerator = sum_list products;
               denominator = (sum_list (map (\<lambda>x. x\<^sup>2) first_cvz)) powr (1 / 2) *
                             (sum_list (map (\<lambda>x. x\<^sup>2) second_cvz)) powr (1 / 2)
           in if first_cvz = [] \<and> second_cvz = [] then Inl ZeroDivisionError
              else Inr (np_true_divide numerator denominator)))"

section \<open>Fidelity metric\<close>

text \<open>
  Both PSNR functions take arrays of any element type; \<open>to_real\<close> reads an element as
  a number (the identity for floats, \<open>unat\<close> for unsigned bytes, whose subtraction and
  square wrap around modulo 256 as NumPy's do).
\<close>

definition squared_error :: "('a::comm_ring_1 \<Rightarrow> real) \<Rightarrow> 'a array2 \<Rightarrow> 'a array2 \<Rightarrow> py_error + np_float" where
  "squared_error to_real a b =
     (case np_binop2 (-) a b of
        Inl e \<Rightarrow> Inl e
      | Inr d \<Rightarrow> Inr (np_mean (map to_real (flatten (map (map (\<lambda>x. x\<^sup>2)) d)))))"

text \<open>
  \<open>calculate_psnr\<close>: the guard \<open>mse == 0\<close> returns 100. \<open>math.sqrt\<close> and
  \<open>math.log10\<close> are Python's: outside their domain they raise \<open>ValueError\<close>.
\<close>

definition calculate_psnr :: "('a::comm_ring_1 \<Rightarrow> real) \<Rightarrow> 'a array2 \<Rightarrow> 'a array2 \<Rightarrow> py_error + np_float" where
  "calculate_psnr to_real original compressed =
     (case squared_error to_real original compressed of
        Inl e \<Rightarrow> Inl e
      | Inr mse \<Rightarrow>
          (case mse of
             Num m \<Rightarrow> if m = 0 then Inr (Num 100)
                      else if m < 0 then Inl ValueError
                      else Inr (Num (20 * log 10 (255 / sqrt m)))
           | NaN \<Rightarrow> Inr NaN
           | _ \<Rightarrow> Inl ValueError))"

text \<open>\<open>numpy.log10\<close>, the division of a number by a float, and a float scaled by a number.\<close>

fun np_log10 :: "np_float \<Rightarrow> np_float" where
  "np_log10 (Num q) = (if 0 < q then Num (log 10 q) else if q = 0 then NegInf else NaN)"
| "np_log10 PosInf = PosInf"
| "np_log10 NegInf = NaN"
| "np_log10 NaN = NaN"

fun np_divide :: "real \<Rightarrow> np_float \<Rightarrow> np_float" where
  "np_divide n (Num d) = np_true_divide n d"
| "np_divide n NaN = NaN"
| "np_divide n _ = Num 0"

fun np_scale :: "real \<Rightarrow> np_float \<Rightarrow> np_float" where
  "np_scale k (Num x) = Num (k * x)"
| "np_scale k PosInf = (if 0 < k then PosInf else if k < 0 then NegInf else NaN)"
| "np_scale k NegInf = (if 0 < k then NegInf else if k < 0 then PosInf else NaN)"
| "np_scale k NaN = NaN"

text \<open>\<open>calculate_psnr_alternative\<close>: no guard; NumPy divides by the zero mean.\<close>

definition calculate_psnr_alternative :: "('a::comm_ring_1 \<Rightarrow> real) \<Rightarrow> 'a array2 \<Rightarrow> 'a array2 \<Rightarrow> py_error + np_float" where
  "calculate_psnr_alternative to_real c cw =
     (case squared_error to_real c cw of
        Inl e \<Rightarrow> Inl e
      | Inr mse \<Rightarrow> Inr (np_scale 10 (np_log10 (np_divide (255\<^sup>2) mse))))"

section \<open>Slices\<close>

text \<open>
  \<open>int(x)\<close> of a float truncates towards zero. A slice bound \<open>k\<close> on an axis of
  length \<open>n\<close> counts from the end when negative and is clamped to \<open>0..n\<close>; the slice
  \<open>lo:hi\<close> is empty when its normalised stop is not beyond its start.
\<close>

definition py_int :: "real \<Rightarrow> int" where
  "py_int x = (if 0 \<le> x then \<lfloor>x\<rfloor> else \<lceil>x\<rceil>)"

definition py_index :: "int \<Rightarrow> nat \<Rightarrow> nat" where
  "py_index k n = (if k < 0 then nat (max 0 (int n + k)) else min (nat k) n)"

definition slice_bounds :: "int \<times> int \<Rightarrow> nat \<Rightarrow> nat \<times> nat" where
  "slice_bounds sl n =
     (let lo = py_index (fst sl) n; hi = py_index (snd sl) n in (lo, max lo hi))"

text \<open>\<open>A[r0:r1, c0:c1]\<close> read.\<close>

definition getitem2 :: "int \<times> int \<Rightarrow> int \<times> int \<Rightarrow> 'a array2 \<Rightarrow> 'a array2" where
  "getitem2 rs cs A =
     (let (r0, r1) = slice_bounds rs (length A);
          (c0, c1) = slice_bounds cs (ncols A)
      in map (\<lambda>row. take (c1 - c0) (drop c0 row)) (take (r1 - r0) (drop r0 A)))"

text \<open>
  \<open>A[r0:r1, c0:c1] = V\<close>: the value must broadcast to the shape of the region, else
  \<open>ValueError\<close> and nothing is written. The result is the array after the write.
\<close>

definition setitem2 ::
  "int \<times> int \<Rightarrow> int \<times> int \<Rightarrow> 'a array2 \<Rightarrow> 'a array2 \<Rightarrow> py_error + 'a array2" where
  "setitem2 rs cs A V =
     (let (r0, r1) = slice_bounds rs (length A);
          (c0, c1) = slice_bounds cs (ncols A);
          tr = r1 - r0; tc = c1 - c0
      in if (length V = tr \<or> length V = 1) \<and> (ncols V = tc \<or> ncols V = 1)
         then Inr (take r0 A @
                   map2 (\<lambda>row v. take c0 row @ v @ drop c1 row)
                     (take tr (drop r0 A)) (stretch tr (map (stretch tc) V)) @
                   drop r1 A)
         else Inl ValueError)"

section \<open>Program state\<close>

text \<open>
  The transform, the PNG file written and read back, and the random generator belong to
  libraries (NumPy, Pillow); the model takes them as parameters, as total functions:
  what the libraries raise on an array without elements is outside the model. The
  generator is the stream of the samples it will deliver.
\<close>

record env =
  fft2 :: "uint8 array2 \<Rightarrow> complex array2"
  ifft2 :: "complex array2 \<Rightarrow> complex array2"
  png_round_trip :: "real array2 \<Rightarrow> uint8 array2"

text \<open>
  An instance of the library parameters, for running the model on concrete inputs: the
  transform reads every byte as a number, and the image file read back has the value
  \<open>w\<close> everywhere.
\<close>

definition flat_env :: "uint8 \<Rightarrow> env" where
  "flat_env w = \<lparr>fft2 = map (map (\<lambda>x. of_nat (unat x))), ifft2 = (\<lambda>A. A),
                 png_round_trip = map (map (\<lambda>_. w))\<rparr>"

type_synonym rng = "nat \<Rightarrow> real"

type_synonym addr = nat

text \<open>
  The variables of the embedding code. The float arrays of the spectrum are objects in
  \<open>heap\<close>, and a variable holds the address of its object, because
  \<open>modified_abs_spectrum = abs_spectrum\<close> binds a second name to the same object and the
  slice assignment writes into it. The byte images are held by value.
\<close>

record script_state =
  heap :: "addr \<Rightarrow> real array2"
  next_addr :: addr
  phase_array :: addr
  abs_spectrum :: addr
  original_abs_spectrum :: addr
  modified_abs_spectrum :: addr
  CVZ :: "real array2"
  image_array :: "uint8 array2"
  reverse_array :: "uint8 array2"

definition ALPHA :: real where
  "ALPHA = 1"

definition new_array :: "real array2 \<Rightarrow> script_state \<Rightarrow> addr \<times> script_state" where
  "new_array A s =
     (next_addr s, s\<lparr>heap := (heap s)(next_addr s := A), next_addr := Suc (next_addr s)\<rparr>)"

definition initial_state :: "real array2 \<Rightarrow> uint8 array2 \<Rightarrow> script_state" where
  "initial_state cvz img =
     \<lparr>heap = (\<lambda>_. []), next_addr = 0, phase_array = 0, abs_spectrum = 0,
      original_abs_spectrum = 0, modified_abs_spectrum = 0,
      CVZ = cvz, image_array = img, reverse_array = []\<rparr>"

section \<open>Embedding and extraction\<close>

text \<open>
  Lines 250--257 of the script (62--69 in \<open>select_best_alpha\<close>): the spectrum of the
  image, its phase, and its magnitude computed twice, so that \<open>abs_spectrum\<close> and
  \<open>original_abs_spectrum\<close> are two objects; \<open>modified_abs_spectrum\<close> is \<open>abs_spectrum\<close>.
\<close>

definition decompose :: "complex array2 \<Rightarrow> script_state \<Rightarrow> script_state" where
  "decompose spectre_array s =
     (let (ph, s1) = new_array (map (map Arg) spectre_array) s;
          (ab, s2) = new_array (map (map cmod) spectre_array) s1;
          (orig, s3) = new_array (map (map cmod) spectre_array) s2
      in s3\<lparr>phase_array := ph, abs_spectrum := ab, original_abs_spectrum := orig,
             modified_abs_spectrum := ab\<rparr>)"

text \<open>
  Lines 258--259 (70--71): \<open>modified_abs_spectrum[128:384, 128:384] =
  abs_spectrum[128:384, 128:384] + ALPHA * CVZ\<close>. The strength is the module constant
  \<open>ALPHA\<close> at both places; the embedding code has no other.
\<close>

definition embed :: "script_state \<Rightarrow> py_error + script_state" where
  "embed s =
     (case np_binop2 (+) (getitem2 (128, 384) (128, 384) (heap s (abs_spectrum s)))
                         (map (map ((*) ALPHA)) (CVZ s)) of
        Inl e \<Rightarrow> Inl e
      | Inr block \<Rightarrow>
          (case setitem2 (128, 384) (128, 384) (heap s (modified_abs_spectrum s)) block of
             Inl e \<Rightarrow> Inl e
           | Inr M \<Rightarrow> Inr (s\<lparr>heap := (heap s)(modified_abs_spectrum s := M)\<rparr>)))"

text \<open>
  Lines 260--269 (72--81): recomposition with the phase, inverse transform, magnitude,
  and the image file written and read back into \<open>reverse_array\<close>.
\<close>

definition reconstruct :: "env \<Rightarrow> script_state \<Rightarrow> py_error + script_state" where
  "reconstruct E s =
     (case np_binop2 (\<lambda>m ph. complex_of_real m * cis ph)
             (heap s (modified_abs_spectrum s)) (heap s (phase_array s)) of
        Inl e \<Rightarrow> Inl e
      | Inr modified_spectrum \<Rightarrow>
          Inr (s\<lparr>reverse_array :=
                   png_round_trip E (map (map cmod) (ifft2 E modified_spectrum))\<rparr>))"

text \<open>
  Lines 270--279: the watermark read out of a candidate image and its correlation with
  \<open>CVZ\<close>. The same statements stand in \<open>select_best_alpha\<close> (82--91) and in every
  attack function (170--179 for the cut); the correlation formula is the body of
  \<open>calculate_proximity\<close>.
\<close>

definition extract_cvz :: "env \<Rightarrow> script_state \<Rightarrow> uint8 array2 \<Rightarrow> py_error + real array2" where
  "extract_cvz E s candidate =
     (case np_binop2 (\<lambda>z ph. cmod (z / cis ph)) (fft2 E candidate) (heap s (phase_array s)) of
        Inl e \<Rightarrow> Inl e
      | Inr reverse_abs_spectrum \<Rightarrow>
          (case np_binop2 (-) (getitem2 (128, 384) (128, 384) reverse_abs_spectrum)
                  (getitem2 (128, 384) (128, 384) (heap s (original_abs_spectrum s))) of
             Inl e \<Rightarrow> Inl e
           | Inr d \<Rightarrow> Inr (map (map (\<lambda>x. x / ALPHA)) d)))"

definition extract_proximity :: "env \<Rightarrow> script_state \<Rightarrow> uint8 array2 \<Rightarrow> py_error + np_float" where
  "extract_proximity E s candidate =
     (case extract_cvz E s candidate of
        Inl e \<Rightarrow> Inl e
      | Inr included_cvz \<Rightarrow> calculate_proximity (flatten (CVZ s)) (flatten included_cvz))"

text \<open>Lines 247--269 together: the state in which the script evaluates and attacks.\<close>

definition embed_image :: "env \<Rightarrow> real array2 \<Rightarrow> uint8 array2 \<Rightarrow> py_error + script_state" where
  "embed_image E cvz img =
     (case embed (decompose (fft2 E img) (initial_state cvz img)) of
        Inl e \<Rightarrow> Inl e
      | Inr s \<Rightarrow> reconstruct E s)"

section \<open>Search for the embedding strength\<close>

text \<open>The value of an unsigned byte, and \<open>range(start, stop, step)\<close> for a positive step.\<close>

definition uint8_value :: "uint8 \<Rightarrow> real" where
  "uint8_value w = real (unat w)"

definition py_range :: "int \<Rightarrow> int \<Rightarrow> int \<Rightarrow> int list" where
  "py_range start stop step =
     map (\<lambda>k. start + int k * step) [0..<nat ((stop - start + step - 1) div step)]"

text \<open>
  Lines 62--71, the body of the loop of \<open>select_best_alpha\<close> up to the slice assignment:
  the state in which the iteration for the candidate \<open>alpha\<close> has embedded the watermark.
\<close>

definition alpha_embedding ::
  "env \<Rightarrow> real array2 \<Rightarrow> uint8 array2 \<Rightarrow> int \<Rightarrow> py_error + script_state" where
  "alpha_embedding E cvz img alpha = embed (decompose (fft2 E img) (initial_state cvz img))"

text \<open>
  Lines 62--91, the body of the loop of \<open>select_best_alpha\<close> up to the proximity \<open>p\<close>:
  the statements of the script again, on local variables. They read \<open>ALPHA\<close>; the loop
  variable \<open>alpha\<close> does not occur in them.
\<close>

definition alpha_trial ::
  "env \<Rightarrow> real array2 \<Rightarrow> uint8 array2 \<Rightarrow> int \<Rightarrow> py_error + (np_float \<times> uint8 array2)" where
  "alpha_trial E cvz img alpha =
     (case embed_image E cvz img of
        Inl e \<Rightarrow> Inl e
      | Inr s \<Rightarrow>
          (case extract_proximity E s (reverse_array s) of
             Inl e \<Rightarrow> Inl e
           | Inr p \<Rightarrow> Inr (p, reverse_array s)))"

text \<open>Lines 92--100: the state of the search is \<open>(psnr, best_alpha, best_proximities)\<close>.\<close>

definition select_best_alpha_step ::
  "env \<Rightarrow> real array2 \<Rightarrow> uint8 array2 \<Rightarrow> int \<Rightarrow> np_float \<times> int \<times> np_float
     \<Rightarrow> py_error + (np_float \<times> int \<times> np_float)" where
  "select_best_alpha_step E cvz img alpha st =
     (case alpha_trial E cvz img alpha of
        Inl e \<Rightarrow> Inl e
      | Inr (p, reverse_arr) \<Rightarrow>
          if process_threshold p \<noteq> 0
          then (case calculate_psnr_alternative uint8_value img reverse_arr of
                  Inl e \<Rightarrow> Inl e
                | Inr new_psnr \<Rightarrow>
                    (case st of (psnr, best_alpha, best_proximities) \<Rightarrow>
                       if np_greater new_psnr psnr then Inr (new_psnr, alpha, p) else Inr st))
          else Inr st)"

fun select_best_alpha_loop ::
  "env \<Rightarrow> real array2 \<Rightarrow> uint8 array2 \<Rightarrow> int list \<Rightarrow> np_float \<times> int \<times> np_float
     \<Rightarrow> py_error + (np_float \<times> int \<times> np_float)" where
  "select_best_alpha_loop E cvz img [] st = Inr st"
| "select_best_alpha_loop E cvz img (alpha # rest) st =
     (case select_best_alpha_step E cvz img alpha st of
        Inl e \<Rightarrow> Inl e
      | Inr st' \<Rightarrow> select_best_alpha_loop E cvz img rest st')"

text \<open>\<open>select_best_alpha\<close> returns \<open>(best_alpha, psnr, best_proximities)\<close>.\<close>

definition select_best_alpha ::
  "env \<Rightarrow> real array2 \<Rightarrow> uint8 array2 \<Rightarrow> py_error + (int \<times> np_float \<times> np_float)" where
  "select_best_alpha E cvz img =
     (case select_best_alpha_loop E cvz img (py_range 1 1001 100) (Num 0, 0, Num 0) of
        Inl e \<Rightarrow> Inl e
      | Inr (psnr, best_alpha, best_proximities) \<Rightarrow> Inr (best_alpha, psnr, best_proximities))"

section \<open>False detection\<close>

text \<open>
  \<open>numpy.random.normal(0, 1, size)\<close> takes the next samples of the generator; a
  two-dimensional size is filled row by row.
\<close>

definition np_random_normal :: "nat \<Rightarrow> rng \<Rightarrow> real list \<times> rng" where
  "np_random_normal n g = (map g [0..<n], \<lambda>i. g (i + n))"

definition reshape2 :: "nat \<Rightarrow> nat \<Rightarrow> 'a list \<Rightarrow> 'a array2" where
  "reshape2 r c xs = map (\<lambda>i. take c (drop (i * c) xs)) [0..<r]"

text \<open>Line 16: \<open>CVZ = np.random.normal(0, 1, size=[256, 256])\<close>.\<close>

definition draw_CVZ :: "rng \<Rightarrow> real array2 \<times> rng" where
  "draw_CVZ g = (let (xs, g') = np_random_normal (256 * 256) g in (reshape2 256 256 xs, g'))"

fun generate_false_detection_vectors :: "nat \<Rightarrow> rng \<Rightarrow> real list list \<times> rng" where
  "generate_false_detection_vectors 0 g = ([], g)"
| "generate_false_detection_vectors (Suc count) g =
     (let (v, g1) = np_random_normal 65536 g;
          (vs, g2) = generate_false_detection_vectors count g1
      in (v # vs, g2))"

fun detect_false_proximity :: "real list list \<Rightarrow> real list \<Rightarrow> py_error + np_float list" where
  "detect_false_proximity [] cvz = Inr []"
| "detect_false_proximity (false_cvz # rest) cvz =
     (case calculate_proximity cvz false_cvz of
        Inl e \<Rightarrow> Inl e
      | Inr x \<Rightarrow>
          (case detect_false_proximity rest cvz of
             Inl e \<Rightarrow> Inl e
           | Inr xs \<Rightarrow> Inr (x # xs)))"

text \<open>
  Lines 233--236: the vectors are generated after \<open>CVZ\<close>, and the analysis runs before
  the image is loaded.
\<close>

definition false_detection_cvz :: "rng \<Rightarrow> real list list" where
  "false_detection_cvz g = fst (generate_false_detection_vectors 100 (snd (draw_CVZ g)))"

definition false_detection_proximity_array :: "rng \<Rightarrow> py_error + np_float list" where
  "false_detection_proximity_array g =
     detect_false_proximity (false_detection_cvz g) (flatten (fst (draw_CVZ g)))"

text \<open>Lines 246--274: the watermark the script reads back out of its own embedding.\<close>

definition included_cvz :: "env \<Rightarrow> rng \<Rightarrow> uint8 array2 \<Rightarrow> py_error + real array2" where
  "included_cvz E g img =
     (case embed_image E (fst (draw_CVZ g)) img of
        Inl e \<Rightarrow> Inl e
      | Inr s \<Rightarrow> extract_cvz E s (reverse_array s))"

section \<open>The cut attack\<close>

text \<open>
  Lines 163--169: the top-left square of the global \<open>reverse_array\<close> is overwritten, in
  place, by the same square of \<open>image_array\<close>. Both bounds of either slice come from the
  number of rows.
\<close>

definition cut_replace :: "real \<Rightarrow> script_state \<Rightarrow> py_error + script_state" where
  "cut_replace replacement_proportion s =
     (let k = py_int (replacement_proportion * real (length (reverse_array s)));
          k' = py_int (replacement_proportion * real (length (image_array s)))
      in case setitem2 (0, k) (0, k) (reverse_array s)
                (getitem2 (0, k') (0, k') (image_array s)) of
           Inl e \<Rightarrow> Inl e
         | Inr R \<Rightarrow> Inr (s\<lparr>reverse_array := R\<rparr>))"

text \<open>
  \<open>apply_cut_and_calculate_proximity\<close> returns the state it leaves and its result; an
  exception raised after the write leaves the array written.
\<close>

definition apply_cut_and_calculate_proximity ::
  "env \<Rightarrow> real \<Rightarrow> script_state \<Rightarrow> script_state \<times> (py_error + np_float)" where
  "apply_cut_and_calculate_proximity E replacement_proportion s =
     (case cut_replace replacement_proportion s of
        Inl e \<Rightarrow> (s, Inl e)
      | Inr s' \<Rightarrow> (s', extract_proximity E s' (reverse_array s')))"

text \<open>Lines 287--292: \<open>numpy.arange\<close> in exact arithmetic, and the loop over it.\<close>

definition np_arange :: "real \<Rightarrow> real \<Rightarrow> real \<Rightarrow> real list" where
  "np_arange start stop step =
     map (\<lambda>k. start + real k * step) [0..<nat \<lceil>(stop - start) / step\<rceil>]"

definition cut_param_array :: "real list" where
  "cut_param_array = np_arange (55 / 100) (145 / 100) (15 / 100)"

fun cut_sweep ::
  "env \<Rightarrow> real list \<Rightarrow> script_state \<Rightarrow> np_float list
     \<Rightarrow> script_state \<times> (py_error + np_float list)" where
  "cut_sweep E [] s cut_proximities = (s, Inr cut_proximities)"
| "cut_sweep E (cut_param # rest) s cut_proximities =
     (case apply_cut_and_calculate_proximity E cut_param s of
        (s', Inl e) \<Rightarrow> (s', Inl e)
      | (s', Inr proximity) \<Rightarrow> cut_sweep E rest s' (cut_proximities @ [proximity]))"

section \<open>Properties: arrays\<close>

lemma stretch_same [simp]: "length xs = n \<Longrightarrow> stretch n xs = xs"
  by (simp add: stretch_def)

lemma has_shape_rows: "has_shape r c A \<Longrightarrow> row \<in> set A \<Longrightarrow> length row = c"
  by (simp add: has_shape_def list_all_iff)

lemma has_shape_length: "has_shape r c A \<Longrightarrow> length A = r"
  by (simp add: has_shape_def)

lemma has_shape_ncols: "has_shape r c A \<Longrightarrow> 0 < r \<Longrightarrow> ncols A = c"
  by (cases A) (auto simp: has_shape_def ncols_def)

lemma has_shapeI: "length A = r \<Longrightarrow> (\<And>row. row \<in> set A \<Longrightarrow> length row = c) \<Longrightarrow> has_shape r c A"
  by (simp add: has_shape_def list_all_iff)

lemma has_shape_nth: "has_shape r c A \<Longrightarrow> i < r \<Longrightarrow> length (A ! i) = c"
  by (simp add: has_shape_def list_all_length)

lemma map_stretch_rows: "has_shape r c A \<Longrightarrow> map (stretch c) A = A"
  by (rule map_idI) (simp add: has_shape_rows)

lemma has_shape_map: "has_shape r c A \<Longrightarrow> has_shape r c (map (map f) A)"
  by (simp add: has_shape_def list_all_iff)

lemma has_shape_map2:
  "has_shape r c A \<Longrightarrow> has_shape r c B \<Longrightarrow> has_shape r c (map2 (map2 f) A B)"
  by (rule has_shapeI) (auto simp: has_shape_def list_all_iff dest: set_zip_leftD set_zip_rightD, (metis set_zip_leftD set_zip_rightD min.idem)+)

lemma np_binop2_same_shape:
  assumes "has_shape r c A" "has_shape r c B" "0 < r"
  shows "np_binop2 f A B = Inr (map2 (map2 f) A B)"
  using assms
  by (simp add: np_binop2_def broadcast_dim_def has_shape_ncols has_shape_length map_stretch_rows)

lemma slice_bounds_in_range:
  "lo \<le> hi \<Longrightarrow> hi \<le> n \<Longrightarrow> slice_bounds (int lo, int hi) n = (lo, hi)"
  by (simp add: slice_bounds_def py_index_def Let_def)

lemma slice_bounds_clamped:
  "n \<le> nat k \<Longrightarrow> slice_bounds (0, k) n = (0, n)"
  by (cases "k < 0") (auto simp add: slice_bounds_def py_index_def Let_def)

lemma has_shape_block:
  assumes "has_shape r c A" "r0 + h \<le> r" "c0 + w \<le> c"
  shows "has_shape h w (map (\<lambda>row. take w (drop c0 row)) (take h (drop r0 A)))"
proof (rule has_shapeI)
  show "length (map (\<lambda>row. take w (drop c0 row)) (take h (drop r0 A))) = h"
    using assms by (simp add: has_shape_def)
next
  fix row assume "row \<in> set (map (\<lambda>row. take w (drop c0 row)) (take h (drop r0 A)))"
  then obtain x where x: "x \<in> set A" "row = take w (drop c0 x)"
    by (auto dest!: in_set_takeD in_set_dropD)
  then show "length row = w" using assms has_shape_rows[OF assms(1) x(1)] by simp
qed

lemma getitem2_block:
  assumes "has_shape r c A" "0 < r" "r0 \<le> r1" "r1 \<le> r" "c0 \<le> c1" "c1 \<le> c"
  shows "getitem2 (int r0, int r1) (int c0, int c1) A =
           map (\<lambda>row. take (c1 - c0) (drop c0 row)) (take (r1 - r0) (drop r0 A))"
  using assms
  by (simp add: getitem2_def slice_bounds_in_range has_shape_ncols has_shape_length)

lemma setitem2_block:
  assumes "has_shape r c A" "0 < r" "r0 \<le> r1" "r1 \<le> r" "c0 \<le> c1" "c1 \<le> c"
    and "has_shape (r1 - r0) (c1 - c0) V" "r0 < r1"
  shows "setitem2 (int r0, int r1) (int c0, int c1) A V =
           Inr (take r0 A @
                map2 (\<lambda>row v. take c0 row @ v @ drop c1 row) (take (r1 - r0) (drop r0 A)) V @
                drop r1 A)"
  using assms
  by (simp add: setitem2_def slice_bounds_in_range has_shape_ncols[of r c A] has_shape_length[of r c A]
      has_shape_ncols[of "r1 - r0" "c1 - c0" V] has_shape_length[of "r1 - r0" "c1 - c0" V] map_stretch_rows)

lemma patched_row_nth:
  assumes "length row = c" "length v = w" "c0 + w \<le> c" "j < c"
  shows "(take c0 row @ v @ drop (c0 + w) row) ! j =
           (if c0 \<le> j \<and> j < c0 + w then v ! (j - c0) else row ! j)"
  using assms by (auto simp: nth_append min_def)

lemma patched_row_length:
  assumes "length row = c" "length v = w" "c0 + w \<le> c"
  shows "length (take c0 row @ v @ drop (c0 + w) row) = c"
  using assms by simp

lemma patched_nth:
  assumes A: "has_shape r c A" and V: "has_shape h w V"
    and fit: "r0 + h \<le> r" "c0 + w \<le> c" and i: "i < r"
  shows "(take r0 A @
          map2 (\<lambda>row v. take c0 row @ v @ drop (c0 + w) row) (take h (drop r0 A)) V @
          drop (r0 + h) A) ! i =
         (if r0 \<le> i \<and> i < r0 + h
          then take c0 (A ! i) @ V ! (i - r0) @ drop (c0 + w) (A ! i)
          else A ! i)"
proof -
  have lA: "length A = r" and lV: "length V = h"
    using A V by (simp_all add: has_shape_def)
  show ?thesis
    using lA lV fit i by (auto simp: nth_append min_def)
qed

lemma patched_length:
  assumes "has_shape r c A" "has_shape h w V" "r0 + h \<le> r"
  shows "length (take r0 A @
          map2 (\<lambda>row v. take c0 row @ v @ drop (c0 + w) row) (take h (drop r0 A)) V @
          drop (r0 + h) A) = r"
  using assms by (simp add: has_shape_def)

lemma patched_tabulate:
  assumes A: "has_shape r c A" and V: "has_shape h w V"
    and fit: "r0 + h \<le> r" "c0 + w \<le> c"
  shows "take r0 A @
          map2 (\<lambda>row v. take c0 row @ v @ drop (c0 + w) row) (take h (drop r0 A)) V @
          drop (r0 + h) A =
         map (\<lambda>i. map (\<lambda>j. if r0 \<le> i \<and> i < r0 + h \<and> c0 \<le> j \<and> j < c0 + w
                              then V ! (i - r0) ! (j - c0) else A ! i ! j) [0..<c]) [0..<r]"
    (is "?M = ?T")
proof (rule nth_equalityI)
  show "length ?M = length ?T" using patched_length[OF A V fit(1)] by simp
next
  fix i assume "i < length ?M"
  then have i: "i < r" using patched_length[OF A V fit(1)] by simp
  have rowlen: "length (A ! i) = c" using has_shape_nth[OF A i] .
  show "?M ! i = ?T ! i"
  proof (cases "r0 \<le> i \<and> i < r0 + h")
    case True
    then have "i - r0 < h" by arith
    then have vlen: "length (V ! (i - r0)) = w" by (rule has_shape_nth[OF V])
    have Mi: "?M ! i = take c0 (A ! i) @ V ! (i - r0) @ drop (c0 + w) (A ! i)"
      using patched_nth[OF A V fit i] True by simp
    show ?thesis
    proof (rule nth_equalityI)
      show "length (?M ! i) = length (?T ! i)"
        using i Mi patched_row_length[OF rowlen vlen fit(2)] by simp
    next
      fix j assume "j < length (?M ! i)"
      then have j: "j < c" using Mi patched_row_length[OF rowlen vlen fit(2)] by simp
      show "?M ! i ! j = ?T ! i ! j"
        using i j True Mi patched_row_nth[OF rowlen vlen fit(2) j] by simp
    qed
  next
    case False
    have Mi: "?M ! i = A ! i" using patched_nth[OF A V fit i] False by simp
    show ?thesis
    proof (rule nth_equalityI)
      show "length (?M ! i) = length (?T ! i)" using i Mi rowlen by simp
    next
      fix j assume "j < length (?M ! i)"
      then have j: "j < c" using Mi rowlen by simp
      show "?M ! i ! j = ?T ! i ! j" using i j False Mi by auto
    qed
  qed
qed

lemma block_nth:
  assumes A: "has_shape r c A" and fit: "r0 + h \<le> r" "c0 + w \<le> c" and ij: "i < h" "j < w"
  shows "map (\<lambda>row. take w (drop c0 row)) (take h (drop r0 A)) ! i ! j = A ! (r0 + i) ! (c0 + j)"
proof -
  have lA: "length A = r" using A by (simp add: has_shape_def)
  have "length (A ! (r0 + i)) = c" using has_shape_nth[OF A, of "r0 + i"] fit ij by simp
  then show ?thesis using lA fit ij by simp
qed

lemma has_shape_replicate: "has_shape r c (replicate r (replicate c x))"
  by (simp add: has_shape_def list_all_iff)

lemma has_shape_tabulate: "has_shape r c (map (\<lambda>i. map (f i) [0..<c]) [0..<r])"
  by (auto simp add: has_shape_def list_all_iff)

lemma tabulate_cong:
  assumes "\<And>i j. i < r \<Longrightarrow> j < c \<Longrightarrow> f i j = g i j"
  shows "map (\<lambda>i. map (f i) [0..<c]) [0..<r] = map (\<lambda>i. map (g i) [0..<c]) [0..<r]"
  by (intro map_cong refl) (simp add: assms)


section \<open>Properties: correlation\<close>

lemma cs_step:
  fixes x y A B C :: real
  assumes "B\<^sup>2 \<le> A * C" "0 \<le> A" "0 \<le> C"
  shows "(x * y + B)\<^sup>2 \<le> (x\<^sup>2 + A) * (y\<^sup>2 + C)"
proof -
  let ?u = "x\<^sup>2 * C" and ?v = "y\<^sup>2 * A"
  have uv: "0 \<le> ?u" "0 \<le> ?v" using assms by simp_all
  have "(2 * (x * y * B))\<^sup>2 = 4 * (x\<^sup>2 * y\<^sup>2 * B\<^sup>2)" by (simp add: power2_eq_square)
  also have "\<dots> \<le> 4 * (x\<^sup>2 * y\<^sup>2 * (A * C))"
    using assms(1) by (simp add: mult_left_mono)
  also have "\<dots> = 4 * ?u * ?v" by simp
  also have "\<dots> \<le> (?u + ?v)\<^sup>2"
  proof -
    have "0 \<le> (?u - ?v)\<^sup>2" by simp
    then show ?thesis by (simp add: power2_eq_square algebra_simps)
  qed
  finally have "(2 * (x * y * B))\<^sup>2 \<le> (?u + ?v)\<^sup>2" .
  then have "2 * (x * y * B) \<le> ?u + ?v"
    using uv by (meson add_nonneg_nonneg power2_le_imp_le)
  with assms(1) show ?thesis by (simp add: power2_eq_square algebra_simps)
qed

lemma sum_sq_nonneg: "0 \<le> sum_list (map (\<lambda>x::real. x\<^sup>2) xs)"
  by (induction xs) auto

lemma sum_sq_zero_iff: "sum_list (map (\<lambda>x::real. x\<^sup>2) xs) = 0 \<longleftrightarrow> (\<forall>x\<in>set xs. x = 0)"
proof (induction xs)
  case Nil
  then show ?case by simp
next
  case (Cons x xs)
  have "x\<^sup>2 + sum_list (map (\<lambda>x. x\<^sup>2) xs) = 0 \<longleftrightarrow> x\<^sup>2 = 0 \<and> sum_list (map (\<lambda>x. x\<^sup>2) xs) = 0"
    using sum_sq_nonneg[of xs] by (intro add_nonneg_eq_0_iff) simp_all
  with Cons show ?case by simp
qed

lemma cauchy_schwarz_list:
  "length a = length b \<Longrightarrow>
   (sum_list (map2 (*) a b))\<^sup>2 \<le> sum_list (map (\<lambda>x::real. x\<^sup>2) a) * sum_list (map (\<lambda>x. x\<^sup>2) b)"
proof (induction a b rule: list_induct2)
  case Nil
  then show ?case by simp
next
  case (Cons x xs y ys)
  show ?case using cs_step[OF Cons.IH sum_sq_nonneg sum_sq_nonneg, of x y] by simp
qed

lemma np_binop1_same_length:
  "length a = length b \<Longrightarrow> np_binop1 f a b = Inr (map2 f a b)"
  by (simp add: np_binop1_def broadcast_dim_def)

lemma sum_zero_products_left:
  "\<forall>x\<in>set a. x = (0::real) \<Longrightarrow> sum_list (map2 (*) a b) = 0"
  by (induction a arbitrary: b) (auto simp: zip_Cons1 split: list.splits)

lemma sum_zero_products_right:
  "\<forall>x\<in>set b. x = (0::real) \<Longrightarrow> sum_list (map2 (*) a b) = 0"
  by (induction b arbitrary: a) (auto simp: zip_Cons split: list.splits)

lemma map2_commute: "map2 (*) a b = map2 (*) b (a :: real list)"
  by (induction a arbitrary: b) (auto simp: zip_Cons1 zip_Cons mult.commute split: list.splits)

lemma proximity_zero_norm:
  assumes "length a = length b" "a \<noteq> []"
    and "(\<forall>x\<in>set a. x = 0) \<or> (\<forall>x\<in>set b. x = 0)"
  shows "calculate_proximity a b = Inr NaN"
proof -
  have num: "sum_list (map2 (*) a b) = 0"
    using assms(3) sum_zero_products_left sum_zero_products_right by blast
  have den: "(sum_list (map (\<lambda>x. x\<^sup>2) a)) powr (1 / 2) * (sum_list (map (\<lambda>x. x\<^sup>2) b)) powr (1 / 2) = 0"
    using assms(3) by (auto simp: sum_sq_zero_iff)
  show ?thesis
    using assms(1,2) num den
    by (simp add: calculate_proximity_def np_binop1_same_length np_true_divide_def)
qed

text \<open>
  Claim C3, as amended. The claim says that a zero-norm vector makes the correlation
  report an error instead of dividing by zero. \<open>calculate_proximity\<close> has no such check:
  for two vectors of equal length, not empty, one of which is all zeros, it divides 0
  by 0 in NumPy arithmetic and returns \<open>nan\<close> as an ordinary result.
\<close>

theorem calculate_proximity_zero_norm:
  assumes "length a = length b" "a \<noteq> []"
    and "(\<forall>x\<in>set a. x = 0) \<or> (\<forall>x\<in>set b. x = 0)"
  shows "calculate_proximity a b = Inr NaN"
  using assms by (rule proximity_zero_norm)

theorem calculate_proximity_zero_norm_witness:
  "calculate_proximity [0, 0, 0] [1, 2, 3] = Inr NaN"
  using calculate_proximity_zero_norm[of "[0, 0, 0]" "[1, 2, 3]"] by simp

text \<open>
  Claim C3 as stated fails: a zero vector against \<open>[1, 2]\<close> gives the value \<open>nan\<close>,
  not an error.
\<close>

theorem calculate_proximity_zero_norm_counterexample:
  "calculate_proximity [0, 0] [1, 2] = Inr NaN"
  by (simp add: calculate_proximity_def np_binop1_def broadcast_dim_def np_true_divide_def)

text \<open>
  Claim C8. For vectors \<open>a\<close>, \<open>b\<close> of equal length, neither all zeros, the correlation
  is a number \<open>r\<close> with \<open>-1 \<le> r \<le> 1\<close>, it is the same in either order, and the
  correlation of a vector with itself is 1.
\<close>

theorem calculate_proximity_properties:
  assumes len: "length a = length b"
    and a: "\<exists>x\<in>set a. x \<noteq> 0" and b: "\<exists>x\<in>set b. x \<noteq> 0"
  shows "\<exists>r. calculate_proximity a b = Inr (Num r) \<and> calculate_proximity b a = Inr (Num r)
           \<and> - 1 \<le> r \<and> r \<le> 1 \<and> calculate_proximity a a = Inr (Num 1)"
proof -
  let ?A = "sum_list (map (\<lambda>x. x\<^sup>2) a)" and ?B = "sum_list (map (\<lambda>x. x\<^sup>2) b)"
  let ?d = "sum_list (map2 (*) a b)"
  have A: "0 < ?A" using a sum_sq_nonneg[of a] sum_sq_zero_iff[of a] by fastforce
  have B: "0 < ?B" using b sum_sq_nonneg[of b] sum_sq_zero_iff[of b] by fastforce
  have ne: "a \<noteq> []" "b \<noteq> []" using a b by auto
  have rA: "?A powr (1 / 2) = sqrt ?A" using A by (simp add: powr_half_sqrt)
  have rB: "?B powr (1 / 2) = sqrt ?B" using B by (simp add: powr_half_sqrt)
  let ?n = "sqrt ?A * sqrt ?B"
  have n: "0 < ?n" using A B by simp
  have nz: "?A \<noteq> 0" "?B \<noteq> 0" using A B by simp_all
  have ab: "calculate_proximity a b = Inr (Num (?d / ?n))"
    using len ne nz by (simp add: calculate_proximity_def np_binop1_same_length np_true_divide_def rA rB)
  have ba: "calculate_proximity b a = Inr (Num (?d / ?n))"
    using len ne nz
    by (simp add: calculate_proximity_def np_binop1_same_length np_true_divide_def rA rB
        map2_commute[of b a] mult.commute)
  have "?d\<^sup>2 \<le> ?A * ?B" by (rule cauchy_schwarz_list[OF len])
  also have "\<dots> = ?n\<^sup>2" using A B by (simp add: power_mult_distrib)
  finally have "\<bar>?d\<bar> \<le> ?n" using n by (simp add: abs_le_square_iff[symmetric])
  then have bounds: "- 1 \<le> ?d / ?n" "?d / ?n \<le> 1"
    using n by (simp_all add: pos_le_divide_eq pos_divide_le_eq abs_le_iff)
  have "sum_list (map2 (*) a a) = ?A"
    by (simp add: zip_same_conv_map power2_eq_square comp_def)
  moreover have "sqrt ?A * sqrt ?A = ?A" using A by simp
  ultimately have aa: "calculate_proximity a a = Inr (Num 1)"
    using ne nz by (simp add: calculate_proximity_def np_binop1_same_length np_true_divide_def rA)
  show ?thesis using ab ba bounds aa by blast
qed

theorem calculate_proximity_properties_witness:
  "\<exists>r. calculate_proximity [3, 4] [4, 3] = Inr (Num r) \<and> calculate_proximity [4, 3] [3, 4] = Inr (Num r)
       \<and> - 1 \<le> r \<and> r \<le> 1 \<and> calculate_proximity [3, 4] [3, 4] = Inr (Num 1)"
  using calculate_proximity_properties[of "[3, 4]" "[4, 3]"] by simp

section \<open>Properties: fidelity metric\<close>

lemma np_mean_Num:
  "np_mean xs = Num m \<Longrightarrow> xs \<noteq> [] \<and> m = sum_list xs / real (length xs)"
  by (auto simp: np_mean_def np_true_divide_def split: if_splits)

lemma np_mean_nonneg:
  assumes "np_mean xs = Num m" "\<forall>x\<in>set xs. 0 \<le> x"
  shows "0 \<le> m"
proof -
  have "0 \<le> sum_list xs" using assms(2) by (simp add: sum_list_nonneg)
  then show ?thesis using np_mean_Num[OF assms(1)] by simp
qed

lemma squared_error_nonneg:
  assumes sq: "\<And>x. 0 \<le> to_real (x\<^sup>2)" and m: "squared_error to_real a b = Inr (Num m)"
  shows "0 \<le> m"
proof -
  from m obtain d where d: "np_mean (map to_real (flatten (map (map (\<lambda>x. x\<^sup>2)) d))) = Num m"
    by (auto simp: squared_error_def split: sum.splits)
  have "\<forall>x\<in>set (map to_real (flatten (map (map (\<lambda>x. x\<^sup>2)) d))). 0 \<le> x"
    using sq by (auto simp: flatten_def)
  with d show ?thesis by (rule np_mean_nonneg)
qed

lemma psnr_log_identity:
  assumes "0 < (m::real)"
  shows "20 * log 10 (255 / sqrt m) = 10 * log 10 (255\<^sup>2 / m)"
proof -
  have pos: "0 < 255 / sqrt m" using assms by simp
  have "255\<^sup>2 / m = (255 / sqrt m)\<^sup>2"
    using assms by (simp add: power_divide)
  then have "log 10 (255\<^sup>2 / m) = 2 * log 10 (255 / sqrt m)"
    using log_nat_power[of "255 / sqrt m" 10 2] pos by simp
  then show ?thesis by simp
qed

text \<open>
  Claim C7. Whenever the mean squared error \<open>m\<close> of two images is a number other than
  zero (the element type's squares read as non-negative numbers, as they do for floats
  and for bytes), \<open>calculate_psnr\<close> returns \<open>20 log10(255 / sqrt m)\<close>,
  \<open>calculate_psnr_alternative\<close> returns \<open>10 log10(255\<^sup>2 / m)\<close>, and the two are equal.
\<close>

theorem psnr_formulas_agree:
  assumes sq: "\<And>x. 0 \<le> to_real (x\<^sup>2)"
    and mse: "squared_error to_real a b = Inr (Num m)" and nz: "m \<noteq> 0"
  shows "calculate_psnr to_real a b = Inr (Num (20 * log 10 (255 / sqrt m)))
       \<and> calculate_psnr_alternative to_real a b = Inr (Num (10 * log 10 (255\<^sup>2 / m)))
       \<and> 20 * log 10 (255 / sqrt m) = 10 * log 10 (255\<^sup>2 / m)"
proof -
  have pos: "0 < m" using squared_error_nonneg[OF sq mse] nz by simp
  have 1: "calculate_psnr to_real a b = Inr (Num (20 * log 10 (255 / sqrt m)))"
    using mse pos by (simp add: calculate_psnr_def)
  have 2: "calculate_psnr_alternative to_real a b = Inr (Num (10 * log 10 (255\<^sup>2 / m)))"
    using mse pos by (simp add: calculate_psnr_alternative_def np_true_divide_def)
  show ?thesis using 1 2 psnr_log_identity[OF pos] by simp
qed

theorem psnr_formulas_agree_witness:
  "squared_error uint8_value [[1, 2]] [[3, 2]] = Inr (Num 2)
   \<and> calculate_psnr uint8_value [[1, 2]] [[3, 2]] = calculate_psnr_alternative uint8_value [[1, 2]] [[3, 2]]"
proof -
  have sq: "\<And>x. 0 \<le> uint8_value (x\<^sup>2)" unfolding uint8_value_def by (rule of_nat_0_le_iff)
  have mse: "squared_error uint8_value [[1, 2]] [[3, 2]] = Inr (Num 2)"
    by (simp add: squared_error_def np_binop2_def broadcast_dim_def ncols_def flatten_def
        np_mean_def np_true_divide_def uint8_value_def power2_eq_square)
  show ?thesis using mse psnr_formulas_agree[OF sq mse] by simp
qed

lemma concat_zero_rows:
  "concat (map (\<lambda>x. replicate (length x) z) A) = replicate (length (concat A)) z"
  by (induction A) (simp_all add: replicate_add)

lemma squared_error_self:
  assumes "has_shape r c img" "0 < r" "0 < c" "to_real 0 = 0"
  shows "squared_error to_real img img = Inr (Num 0)"
proof -
  have d: "np_binop2 (-) img img = Inr (map (map (\<lambda>x. 0)) img)"
    using assms(1,2) by (simp add: np_binop2_same_shape[of r c] zip_same_conv_map comp_def)
  have z: "map to_real (flatten (map (map (\<lambda>x. x\<^sup>2)) (map (map (\<lambda>x. 0)) img))) =
           replicate (length (concat img)) 0"
    using assms(4) by (simp add: flatten_def map_concat comp_def map_replicate_const concat_zero_rows)
  have "img \<noteq> []" using assms(1,2) by (auto simp: has_shape_def)
  then obtain row rest where img: "img = row # rest" by (cases img) auto
  have "length row = c" using assms(1) img by (simp add: has_shape_def)
  then have ne: "length (concat img) \<noteq> 0" using assms(3) img by auto
  have "squared_error to_real img img =
          Inr (np_mean (map to_real (flatten (map (map (\<lambda>x. x\<^sup>2)) (map (map (\<lambda>x. 0)) img)))))"
    by (simp only: squared_error_def d sum.case)
  also have "\<dots> = Inr (np_mean (replicate (length (concat img)) 0))"
    by (simp only: z)
  also have "\<dots> = Inr (Num 0)"
    using ne by (simp add: np_mean_def np_true_divide_def sum_list_replicate)
  finally show ?thesis .
qed

lemma calculate_psnr_self:
  assumes "has_shape r c img" "0 < r" "0 < c" "to_real 0 = 0"
  shows "calculate_psnr to_real img img = Inr (Num 100)"
  using squared_error_self[of r c img to_real] assms by (simp add: calculate_psnr_def)

lemma calculate_psnr_alternative_self:
  assumes "has_shape r c img" "0 < r" "0 < c" "to_real 0 = 0"
  shows "calculate_psnr_alternative to_real img img = Inr PosInf"
  using squared_error_self[of r c img to_real] assms
  by (simp add: calculate_psnr_alternative_def np_true_divide_def)

text \<open>
  Claim C4, at a failing input. For an image compared with itself \<open>calculate_psnr\<close>
  returns 100, but \<open>calculate_psnr_alternative\<close>, the function \<open>select_best_alpha\<close>
  calls, has no guard and returns \<open>inf\<close>.
\<close>

theorem psnr_alternative_of_identical_images:
  "calculate_psnr uint8_value [[10, 20], [30, 40]] [[10, 20], [30, 40]] = Inr (Num 100)
   \<and> calculate_psnr_alternative uint8_value [[10, 20], [30, 40]] [[10, 20], [30, 40]] = Inr PosInf"
proof -
  have s: "has_shape 2 2 [[10, 20], [30, 40 :: uint8]]" by (simp add: has_shape_def)
  have z: "uint8_value 0 = 0" by (simp add: uint8_value_def)
  show ?thesis
    using calculate_psnr_self[of 2 2 _ uint8_value, OF s] calculate_psnr_alternative_self[of 2 2 _ uint8_value, OF s] z
    by simp
qed

section \<open>Properties: embedding\<close>

lemma decompose_fields:
  "heap (decompose S s0) =
     (heap s0)(next_addr s0 := map (map Arg) S, Suc (next_addr s0) := map (map cmod) S,
               Suc (Suc (next_addr s0)) := map (map cmod) S)"
  "phase_array (decompose S s0) = next_addr s0"
  "abs_spectrum (decompose S s0) = Suc (next_addr s0)"
  "original_abs_spectrum (decompose S s0) = Suc (Suc (next_addr s0))"
  "modified_abs_spectrum (decompose S s0) = Suc (next_addr s0)"
  "CVZ (decompose S s0) = CVZ s0"
  "image_array (decompose S s0) = image_array s0"
  "reverse_array (decompose S s0) = reverse_array s0"
  by (simp_all add: decompose_def new_array_def Let_def)

lemma central_block_read:
  assumes "has_shape r c A" "384 \<le> r" "384 \<le> c"
  shows "getitem2 (128, 384) (128, 384) A =
           map (\<lambda>row. take 256 (drop 128 row)) (take 256 (drop 128 A))"
  using getitem2_block[of r c A 128 384 128 384] assms by simp

lemma central_block_write:
  assumes "has_shape r c A" "384 \<le> r" "384 \<le> c" "has_shape 256 256 V"
  shows "setitem2 (128, 384) (128, 384) A V =
           Inr (take 128 A @
                map2 (\<lambda>row v. take 128 row @ v @ drop 384 row) (take 256 (drop 128 A)) V @
                drop 384 A)"
  using setitem2_block[of r c A 128 384 128 384 V] assms by simp

lemma central_block_shape:
  assumes "has_shape r c A" "384 \<le> r" "384 \<le> c"
  shows "has_shape 256 256 (map (\<lambda>row. take 256 (drop 128 row)) (take 256 (drop 128 A)))"
  using has_shape_block[of r c A 128 256 128 256] assms by simp

lemma embed_result:
  assumes A: "has_shape r c (heap s (abs_spectrum s))" and big: "384 \<le> r" "384 \<le> c"
    and W: "has_shape 256 256 (CVZ s)" and same: "modified_abs_spectrum s = abs_spectrum s"
  shows "embed s =
           Inr (s\<lparr>heap := (heap s)(modified_abs_spectrum s :=
                 map (\<lambda>i. map (\<lambda>j. heap s (abs_spectrum s) ! i ! j +
                       (if 128 \<le> i \<and> i < 384 \<and> 128 \<le> j \<and> j < 384
                        then ALPHA * CVZ s ! (i - 128) ! (j - 128) else 0)) [0..<c]) [0..<r])\<rparr>)"
proof -
  let ?A = "heap s (abs_spectrum s)"
  let ?B = "map (\<lambda>row. take 256 (drop 128 row)) (take 256 (drop 128 ?A))"
  let ?W = "map (map ((*) ALPHA)) (CVZ s)"
  let ?V = "map2 (map2 (+)) ?B ?W"
  have B: "has_shape 256 256 ?B" by (rule central_block_shape[OF A big])
  have W': "has_shape 256 256 ?W" by (rule has_shape_map[OF W])
  have V: "has_shape 256 256 ?V" by (rule has_shape_map2[OF B W'])
  have sum: "np_binop2 (+) (getitem2 (128, 384) (128, 384) ?A) ?W = Inr ?V"
    using np_binop2_same_shape[OF B W'] by (simp add: central_block_read[OF A big])
  have wr: "setitem2 (128, 384) (128, 384) ?A ?V =
              Inr (take 128 ?A @
                   map2 (\<lambda>row v. take 128 row @ v @ drop 384 row) (take 256 (drop 128 ?A)) ?V @
                   drop 384 ?A)"
    by (rule central_block_write[OF A big V])
  have tab: "take 128 ?A @
             map2 (\<lambda>row v. take 128 row @ v @ drop 384 row) (take 256 (drop 128 ?A)) ?V @
             drop 384 ?A =
             map (\<lambda>i. map (\<lambda>j. if 128 \<le> i \<and> i < 384 \<and> 128 \<le> j \<and> j < 384
                              then ?V ! (i - 128) ! (j - 128) else ?A ! i ! j) [0..<c]) [0..<r]"
    using patched_tabulate[OF A V, of 128 128] big by simp
  have elt: "\<And>i j. i < r \<Longrightarrow> j < c \<Longrightarrow>
      (if 128 \<le> i \<and> i < 384 \<and> 128 \<le> j \<and> j < 384 then ?V ! (i - 128) ! (j - 128) else ?A ! i ! j) =
      ?A ! i ! j + (if 128 \<le> i \<and> i < 384 \<and> 128 \<le> j \<and> j < 384
                    then ALPHA * CVZ s ! (i - 128) ! (j - 128) else 0)"
  proof -
    fix i j assume ij: "i < r" "j < c"
    show "(if 128 \<le> i \<and> i < 384 \<and> 128 \<le> j \<and> j < 384 then ?V ! (i - 128) ! (j - 128) else ?A ! i ! j) =
      ?A ! i ! j + (if 128 \<le> i \<and> i < 384 \<and> 128 \<le> j \<and> j < 384
                    then ALPHA * CVZ s ! (i - 128) ! (j - 128) else 0)"
    proof (cases "128 \<le> i \<and> i < 384 \<and> 128 \<le> j \<and> j < 384")
      case True
      then have i': "i - 128 < 256" and j': "j - 128 < 256" by arith+
      have lB: "length ?B = 256" "length (?B ! (i - 128)) = 256"
        using B i' by (simp_all only: has_shape_length[OF B] has_shape_nth[OF B i'])
      have lW: "length ?W = 256" "length (?W ! (i - 128)) = 256"
        using W' i' by (simp_all only: has_shape_length[OF W'] has_shape_nth[OF W' i'])
      have lC: "length (CVZ s) = 256" "length (CVZ s ! (i - 128)) = 256"
        using W i' by (simp_all only: has_shape_length[OF W] has_shape_nth[OF W i'])
      have "?V ! (i - 128) ! (j - 128) = ?B ! (i - 128) ! (j - 128) + ?W ! (i - 128) ! (j - 128)"
        using lB lW i' j' by simp
      moreover have "?B ! (i - 128) ! (j - 128) = ?A ! (128 + (i - 128)) ! (128 + (j - 128))"
        using block_nth[OF A _ _ i' j', of 128 128] big by simp
      moreover have "?W ! (i - 128) ! (j - 128) = ALPHA * CVZ s ! (i - 128) ! (j - 128)"
        using lC i' j' by simp
      ultimately show ?thesis using True by simp
    next
      case False
      then show ?thesis by auto
    qed
  qed
  have tab2: "map (\<lambda>i. map (\<lambda>j. if 128 \<le> i \<and> i < 384 \<and> 128 \<le> j \<and> j < 384
                              then ?V ! (i - 128) ! (j - 128) else ?A ! i ! j) [0..<c]) [0..<r] =
              map (\<lambda>i. map (\<lambda>j. ?A ! i ! j + (if 128 \<le> i \<and> i < 384 \<and> 128 \<le> j \<and> j < 384
                    then ALPHA * CVZ s ! (i - 128) ! (j - 128) else 0)) [0..<c]) [0..<r]"
    by (intro map_cong refl) (simp add: elt)
  show ?thesis
    unfolding embed_def sum sum.case same wr tab tab2 ..
qed




section \<open>Properties: the cut attack\<close>

lemma tabulate_self:
  assumes "has_shape r c A"
  shows "map (\<lambda>i. map (\<lambda>j. A ! i ! j) [0..<c]) [0..<r] = A"
proof (rule nth_equalityI)
  show "length (map (\<lambda>i. map (\<lambda>j. A ! i ! j) [0..<c]) [0..<r]) = length A"
    using assms by (simp add: has_shape_def)
next
  fix i assume "i < length (map (\<lambda>i. map (\<lambda>j. A ! i ! j) [0..<c]) [0..<r])"
  then have i: "i < r" by simp
  have "map (\<lambda>j. A ! i ! j) [0..<c] = A ! i"
    using has_shape_nth[OF assms i] by (metis map_nth)
  then show "map (\<lambda>i. map (\<lambda>j. A ! i ! j) [0..<c]) [0..<r] ! i = A ! i"
    using i by simp
qed

lemma slice_bounds_from_zero:
  "0 \<le> k \<Longrightarrow> slice_bounds (0, k) n = (0, min (nat k) n)"
  by (simp add: slice_bounds_def py_index_def Let_def)

lemma py_int_nonneg: "0 \<le> x \<Longrightarrow> py_int x = \<lfloor>x\<rfloor>"
  by (simp add: py_int_def)

lemma cut_replace_result:
  assumes R: "has_shape n m (reverse_array s)" and I: "has_shape n m (image_array s)"
    and p: "0 \<le> p" and n: "0 < n"
  shows "cut_replace p s =
           Inr (s\<lparr>reverse_array :=
                 map (\<lambda>i. map (\<lambda>j. if i < min (nat \<lfloor>p * real n\<rfloor>) n \<and> j < min (nat \<lfloor>p * real n\<rfloor>) m
                                   then image_array s ! i ! j else reverse_array s ! i ! j)
                        [0..<m]) [0..<n]\<rparr>)"
proof -
  let ?R = "reverse_array s" and ?I = "image_array s"
  let ?k = "\<lfloor>p * real n\<rfloor>"
  let ?kr = "min (nat ?k) n" and ?kc = "min (nat ?k) m"
  let ?V = "map (\<lambda>row. take ?kc row) (take ?kr ?I)"
  have lR: "length ?R = n" and lI: "length ?I = n"
    using R I by (simp_all add: has_shape_def)
  have cR: "ncols ?R = m" and cI: "ncols ?I = m"
    using has_shape_ncols[OF R n] has_shape_ncols[OF I n] by simp_all
  have k0: "0 \<le> ?k" using p by simp
  have pk: "py_int (p * real n) = ?k" using p by (simp add: py_int_nonneg)
  have V: "has_shape ?kr ?kc ?V"
    using has_shape_block[OF I, of 0 ?kr 0 ?kc] by simp
  have get: "getitem2 (0, ?k) (0, ?k) ?I = ?V"
    by (simp add: getitem2_def slice_bounds_from_zero[OF k0] lI cI)
  have cV: "ncols ?V = ?kc"
  proof (cases "0 < ?kr")
    case True
    then show ?thesis by (rule has_shape_ncols[OF V])
  next
    case False
    then have "nat ?k = 0" using n by simp
    then show ?thesis by (simp add: ncols_def)
  qed
  have lV: "length ?V = ?kr" using V by (simp add: has_shape_def)
  have st: "stretch ?kr (map (stretch ?kc) ?V) = ?V"
    using map_stretch_rows[OF V] lV by simp
  have set: "setitem2 (0, ?k) (0, ?k) ?R ?V =
        Inr (take 0 ?R @ map2 (\<lambda>row v. take 0 row @ v @ drop (0 + ?kc) row) (take ?kr (drop 0 ?R)) ?V
             @ drop (0 + ?kr) ?R)"
    unfolding setitem2_def slice_bounds_from_zero[OF k0] lR cR
    by (simp only: Let_def prod.case diff_zero lV cV st simp_thms if_True add_0)
  have tab: "take 0 ?R @ map2 (\<lambda>row v. take 0 row @ v @ drop (0 + ?kc) row) (take ?kr (drop 0 ?R)) ?V
             @ drop (0 + ?kr) ?R =
             map (\<lambda>i. map (\<lambda>j. if 0 \<le> i \<and> i < 0 + ?kr \<and> 0 \<le> j \<and> j < 0 + ?kc
                               then ?V ! (i - 0) ! (j - 0) else ?R ! i ! j) [0..<m]) [0..<n]"
    by (rule patched_tabulate[OF R V]) simp_all
  have elt: "map (\<lambda>i. map (\<lambda>j. if 0 \<le> i \<and> i < 0 + ?kr \<and> 0 \<le> j \<and> j < 0 + ?kc
                               then ?V ! (i - 0) ! (j - 0) else ?R ! i ! j) [0..<m]) [0..<n] =
             map (\<lambda>i. map (\<lambda>j. if i < ?kr \<and> j < ?kc then ?I ! i ! j else ?R ! i ! j) [0..<m]) [0..<n]"
  proof (rule tabulate_cong)
    fix i j assume ij: "i < n" "j < m"
    show "(if 0 \<le> i \<and> i < 0 + ?kr \<and> 0 \<le> j \<and> j < 0 + ?kc then ?V ! (i - 0) ! (j - 0) else ?R ! i ! j) =
          (if i < ?kr \<and> j < ?kc then ?I ! i ! j else ?R ! i ! j)"
    proof (cases "i < ?kr \<and> j < ?kc")
      case True
      then have "?V ! i ! j = ?I ! (0 + i) ! (0 + j)"
        using block_nth[OF I, of 0 ?kr 0 ?kc i j] by simp
      then show ?thesis using True by simp
    next
      case False
      then show ?thesis by auto
    qed
  qed
  show ?thesis
    unfolding cut_replace_def Let_def lR lI pk get set sum.case tab elt ..
qed

lemma cut_replace_whole:
  assumes R: "has_shape n m (reverse_array s)" and I: "has_shape n m (image_array s)"
    and p: "1 \<le> p" and n: "0 < n" and m: "m \<le> n"
  shows "cut_replace p s = Inr (s\<lparr>reverse_array := image_array s\<rparr>)"
proof -
  have "real n \<le> p * real n" using p by (simp add: mult_le_cancel_right1)
  then have "int n \<le> \<lfloor>p * real n\<rfloor>" by (simp add: le_floor_iff)
  then have k: "n \<le> nat \<lfloor>p * real n\<rfloor>" by simp
  then have mins: "min (nat \<lfloor>p * real n\<rfloor>) n = n" "min (nat \<lfloor>p * real n\<rfloor>) m = m"
    using m by simp_all
  have p0: "0 \<le> p" using p by simp
  have "map (\<lambda>i. map (\<lambda>j. if i < n \<and> j < m then image_array s ! i ! j else reverse_array s ! i ! j)
              [0..<m]) [0..<n] = map (\<lambda>i. map (\<lambda>j. image_array s ! i ! j) [0..<m]) [0..<n]"
    by (rule tabulate_cong) simp
  then show ?thesis
    using cut_replace_result[OF R I p0 n] by (simp only: mins tabulate_self[OF I])
qed

text \<open>
  Claim C10. When the replacement proportion is at least 1, and the image and the
  watermarked array have the same shape with no more columns than rows (the program's
  are 512 by 512), both slice bounds are clamped to the array: the assignment raises
  nothing and leaves \<open>reverse_array\<close> equal to \<open>image_array\<close>, and the function goes on to
  the extraction on that array.
\<close>

theorem cut_replaces_whole_image:
  assumes R: "has_shape n m (reverse_array s)" and I: "has_shape n m (image_array s)"
    and p: "1 \<le> p" and n: "0 < n" and m: "m \<le> n"
  shows "cut_replace p s = Inr (s\<lparr>reverse_array := image_array s\<rparr>)
       \<and> apply_cut_and_calculate_proximity E p s =
           (s\<lparr>reverse_array := image_array s\<rparr>,
            extract_proximity E (s\<lparr>reverse_array := image_array s\<rparr>) (image_array s))"
  using cut_replace_whole[OF R I p n m]
  by (simp add: apply_cut_and_calculate_proximity_def)

theorem cut_replaces_whole_image_witness:
  "cut_replace (145 / 100)
     ((initial_state [] (replicate 512 (replicate 512 7)))\<lparr>reverse_array := replicate 512 (replicate 512 9)\<rparr>)
   = Inr ((initial_state [] (replicate 512 (replicate 512 7)))\<lparr>reverse_array := replicate 512 (replicate 512 7)\<rparr>)"
proof -
  let ?s = "(initial_state [] (replicate 512 (replicate 512 7)))\<lparr>reverse_array := replicate 512 (replicate 512 9)\<rparr>"
  have R: "has_shape 512 512 (reverse_array ?s)" by (simp add: has_shape_replicate)
  have I: "has_shape 512 512 (image_array ?s)" by (simp add: initial_state_def has_shape_replicate)
  have i: "image_array ?s = replicate 512 (replicate 512 7)" by (simp add: initial_state_def)
  show ?thesis
    using cut_replaces_whole_image[OF R I, of "145 / 100" "flat_env 0"] by (simp add: i)
qed

lemma upt_6: "[0..<6] = [0, 1, 2, 3, 4, 5]"
  by code_simp

lemma cut_param_array_values:
  "cut_param_array = [55 / 100, 70 / 100, 85 / 100, 1, 115 / 100, 130 / 100]"
  by (simp add: cut_param_array_def np_arange_def upt_6)

text \<open>
  Claim C5, at a failing input. The first value of the sweep, 0.55, applied to a 512 by
  512 watermarked array of 9s with an original image of 7s: after the call the stored
  \<open>reverse_array\<close> holds the original's 7 at row 0, column 0 and still 9 at row 511,
  column 511. The function writes into the stored array and does not restore it.
\<close>

theorem cut_overwrites_reverse_array:
  "hd cut_param_array = 55 / 100
   \<and> reverse_array (fst (apply_cut_and_calculate_proximity E (hd cut_param_array)
      ((initial_state cvz (replicate 512 (replicate 512 7)))\<lparr>reverse_array := replicate 512 (replicate 512 9)\<rparr>)))
     ! 0 ! 0 = 7
   \<and> reverse_array (fst (apply_cut_and_calculate_proximity E (hd cut_param_array)
      ((initial_state cvz (replicate 512 (replicate 512 7)))\<lparr>reverse_array := replicate 512 (replicate 512 9)\<rparr>)))
     ! 511 ! 511 = 9"
proof -
  let ?s = "(initial_state cvz (replicate 512 (replicate 512 7)))\<lparr>reverse_array := replicate 512 (replicate 512 9)\<rparr>"
  have R: "has_shape 512 512 (reverse_array ?s)" by (simp add: has_shape_replicate)
  have I: "has_shape 512 512 (image_array ?s)" by (simp add: initial_state_def has_shape_replicate)
  have i: "image_array ?s = replicate 512 (replicate 512 7)" by (simp add: initial_state_def)
  have k: "\<lfloor>55 / 100 * real 512\<rfloor> = 281" by simp
  have h: "hd cut_param_array = 55 / 100" by (simp add: cut_param_array_values)
  note c = cut_replace_result[OF R I, of "55 / 100", unfolded k, simplified]
  show ?thesis
    unfolding h by (simp add: apply_cut_and_calculate_proximity_def c i)
qed

section \<open>Properties: running the embedding and the extraction\<close>

lemma const_map_shape:
  assumes "has_shape r c A"
  shows "map (map (\<lambda>_. z)) A = replicate r (replicate c z)"
proof -
  have "map (map (\<lambda>_. z)) A = map (\<lambda>_. replicate c z) A"
    by (rule map_cong[OF refl]) (simp add: map_replicate_const has_shape_rows[OF assms])
  then show ?thesis using assms by (simp add: map_replicate_const has_shape_def)
qed

lemma embed_image_result:
  assumes X: "has_shape r c (fft2 E img)" and big: "384 \<le> r" "384 \<le> c"
    and W: "has_shape 256 256 cvz"
  shows "\<exists>s Z. embed_image E cvz img = Inr s
           \<and> heap s (phase_array s) = map (map Arg) (fft2 E img)
           \<and> heap s (original_abs_spectrum s) = map (map cmod) (fft2 E img)
           \<and> CVZ s = cvz \<and> image_array s = img \<and> has_shape r c Z
           \<and> reverse_array s = png_round_trip E (map (map cmod) (ifft2 E Z))"
proof -
  let ?s = "decompose (fft2 E img) (initial_state cvz img)"
  let ?M = "map (\<lambda>i. map (\<lambda>j. heap ?s (abs_spectrum ?s) ! i ! j +
                       (if 128 \<le> i \<and> i < 384 \<and> 128 \<le> j \<and> j < 384
                        then ALPHA * CVZ ?s ! (i - 128) ! (j - 128) else 0)) [0..<c]) [0..<r]"
  let ?s' = "?s\<lparr>heap := (heap ?s)(modified_abs_spectrum ?s := ?M)\<rparr>"
  let ?Z = "map2 (map2 (\<lambda>m ph. complex_of_real m * cis ph)) ?M (map (map Arg) (fft2 E img))"
  have A: "has_shape r c (heap ?s (abs_spectrum ?s))"
    using has_shape_map[OF X, of cmod] by (simp add: decompose_fields)
  have W': "has_shape 256 256 (CVZ ?s)" using W by (simp add: decompose_fields initial_state_def)
  have same: "modified_abs_spectrum ?s = abs_spectrum ?s" by (simp add: decompose_fields)
  have 1: "embed ?s = Inr ?s'" by (rule embed_result[OF A big W' same])
  have ph: "heap ?s' (phase_array ?s') = map (map Arg) (fft2 E img)" by (simp add: decompose_fields)
  have r: "0 < r" using big by simp
  have M: "has_shape r c ?M" by (rule has_shape_tabulate)
  have "np_binop2 (\<lambda>m ph. complex_of_real m * cis ph) ?M (map (map Arg) (fft2 E img)) = Inr ?Z"
    by (rule np_binop2_same_shape[OF M has_shape_map[OF X] r])
  moreover have "heap ?s' (modified_abs_spectrum ?s') = ?M" by simp
  ultimately have 2: "reconstruct E ?s' =
      Inr (?s'\<lparr>reverse_array := png_round_trip E (map (map cmod) (ifft2 E ?Z))\<rparr>)"
    unfolding reconstruct_def by (simp only: ph sum.case)
  have 3: "embed_image E cvz img = Inr (?s'\<lparr>reverse_array := png_round_trip E (map (map cmod) (ifft2 E ?Z))\<rparr>)"
    unfolding embed_image_def by (simp only: 1 2 sum.case)
  have Z: "has_shape r c ?Z" by (rule has_shape_map2[OF M has_shape_map[OF X]])
  show ?thesis
    apply (rule exI[where x="?s'\<lparr>reverse_array := png_round_trip E (map (map cmod) (ifft2 E ?Z))\<rparr>"])
    apply (rule exI[where x="?Z"])
    using 3 Z by (simp add: decompose_fields initial_state_def)
qed

lemma extract_cvz_result:
  assumes P: "has_shape r c (heap s (phase_array s))"
    and Or: "has_shape r c (heap s (original_abs_spectrum s))"
    and X: "has_shape r c (fft2 E cand)" and big: "384 \<le> r" "384 \<le> c"
  shows "extract_cvz E s cand =
           Inr (map (map (\<lambda>x. x / ALPHA))
                 (map2 (map2 (-))
                    (map (\<lambda>row. take 256 (drop 128 row)) (take 256 (drop 128
                       (map2 (map2 (\<lambda>z ph. cmod (z / cis ph))) (fft2 E cand) (heap s (phase_array s))))))
                    (map (\<lambda>row. take 256 (drop 128 row)) (take 256 (drop 128
                       (heap s (original_abs_spectrum s)))))))"
proof -
  let ?Y = "map2 (map2 (\<lambda>z ph. cmod (z / cis ph))) (fft2 E cand) (heap s (phase_array s))"
  have r: "0 < r" using big by simp
  have 1: "np_binop2 (\<lambda>z ph. cmod (z / cis ph)) (fft2 E cand) (heap s (phase_array s)) = Inr ?Y"
    by (rule np_binop2_same_shape[OF X P r])
  have Y: "has_shape r c ?Y" by (rule has_shape_map2[OF X P])
  have 2: "np_binop2 (-) (getitem2 (128, 384) (128, 384) ?Y)
             (getitem2 (128, 384) (128, 384) (heap s (original_abs_spectrum s))) =
           Inr (map2 (map2 (-))
                  (map (\<lambda>row. take 256 (drop 128 row)) (take 256 (drop 128 ?Y)))
                  (map (\<lambda>row. take 256 (drop 128 row)) (take 256 (drop 128 (heap s (original_abs_spectrum s))))))"
    unfolding central_block_read[OF Y big] central_block_read[OF Or big]
    by (rule np_binop2_same_shape[OF central_block_shape[OF Y big] central_block_shape[OF Or big]]) simp
  show ?thesis unfolding extract_cvz_def by (simp only: 1 2 sum.case)
qed

lemma extract_cvz_shape:
  assumes P: "has_shape r c (heap s (phase_array s))"
    and Or: "has_shape r c (heap s (original_abs_spectrum s))"
    and X: "has_shape r c (fft2 E cand)" and big: "384 \<le> r" "384 \<le> c"
  shows "\<exists>D. extract_cvz E s cand = Inr D \<and> has_shape 256 256 D"
proof -
  let ?Y = "map2 (map2 (\<lambda>z ph. cmod (z / cis ph))) (fft2 E cand) (heap s (phase_array s))"
  have Y: "has_shape r c ?Y" by (rule has_shape_map2[OF X P])
  show ?thesis
    unfolding extract_cvz_result[OF assms]
    using has_shape_map[OF has_shape_map2[OF central_block_shape[OF Y big] central_block_shape[OF Or big]]]
    by blast
qed

section \<open>Properties: false detection\<close>

lemma np_random_normal_length [simp]: "length (fst (np_random_normal n g)) = n"
  by (simp add: np_random_normal_def)

lemma reshape2_Suc: "reshape2 (Suc r) c xs = take c xs # reshape2 r c (drop c xs)"
  by (simp add: reshape2_def map_upt_Suc add.commute del: upt_Suc)

lemma concat_reshape2: "length xs = r * c \<Longrightarrow> concat (reshape2 r c xs) = xs"
proof (induction r arbitrary: xs)
  case 0
  then show ?case by (simp add: reshape2_def)
next
  case (Suc r)
  then have "length (drop c xs) = r * c" by simp
  then show ?case using Suc.IH[of "drop c xs"] by (simp add: reshape2_Suc)
qed

lemma has_shape_reshape2: "length xs = r * c \<Longrightarrow> has_shape r c (reshape2 r c xs)"
proof (induction r arbitrary: xs)
  case 0
  then show ?case by (simp add: reshape2_def has_shape_def)
next
  case (Suc r)
  then have "has_shape r c (reshape2 r c (drop c xs))" by simp
  then show ?case using Suc.prems by (simp add: reshape2_Suc has_shape_def)
qed

lemma draw_CVZ_shape: "has_shape 256 256 (fst (draw_CVZ g))"
  by (simp add: draw_CVZ_def np_random_normal_def has_shape_reshape2)

lemma flatten_draw_CVZ: "flatten (fst (draw_CVZ g)) = map g [0..<65536]"
  by (simp add: draw_CVZ_def np_random_normal_def flatten_def concat_reshape2)

lemma snd_draw_CVZ: "snd (draw_CVZ g) = (\<lambda>i. g (i + 65536))"
  by (simp add: draw_CVZ_def np_random_normal_def)

lemma generate_false_detection_vectors_eq:
  "generate_false_detection_vectors count g =
     (map (\<lambda>k. map (\<lambda>i. g (65536 * k + i)) [0..<65536]) [0..<count], \<lambda>i. g (i + 65536 * count))"
proof (induction count arbitrary: g)
  case 0
  then show ?case by simp
next
  case (Suc count)
  have "generate_false_detection_vectors (Suc count) g =
          (map g [0..<65536] #
             map (\<lambda>k. map (\<lambda>i. g (65536 * k + i + 65536)) [0..<65536]) [0..<count],
           \<lambda>i. g (i + 65536 * count + 65536))"
    by (simp add: Suc.IH np_random_normal_def del: upt_Suc)
  also have "\<dots> = (map (\<lambda>k. map (\<lambda>i. g (65536 * k + i)) [0..<65536]) [0..<Suc count],
                    \<lambda>i. g (i + 65536 * Suc count))"
    by (simp add: map_upt_Suc add.commute add.left_commute del: upt_Suc)
  finally show ?case .
qed

lemma false_detection_cvz_eq:
  "false_detection_cvz g =
     map (\<lambda>k. map (\<lambda>i. g (65536 * (k + 1) + i)) [0..<65536]) [0..<100]"
  by (simp add: false_detection_cvz_def generate_false_detection_vectors_eq snd_draw_CVZ
      add.commute add.left_commute del: upt_Suc)

lemma proximity_total:
  assumes "length a = length b" "a \<noteq> []"
  shows "\<exists>x. calculate_proximity a b = Inr x"
  using assms by (simp add: calculate_proximity_def np_binop1_same_length Let_def)

lemma detect_false_proximity_scores:
  assumes "\<forall>d\<in>set ds. \<exists>x. calculate_proximity cvz d = Inr x"
  shows "\<exists>scores. detect_false_proximity ds cvz = Inr scores
           \<and> map Inr scores = map (calculate_proximity cvz) ds"
  using assms
proof (induction ds)
  case Nil
  then show ?case by simp
next
  case (Cons d ds)
  then obtain x where x: "calculate_proximity cvz d = Inr x" by auto
  from Cons obtain scores where s: "detect_false_proximity ds cvz = Inr scores"
      "map Inr scores = map (calculate_proximity cvz) ds" by auto
  show ?case using x s by simp
qed

text \<open>
  Claim C2, as amended. The script generates exactly 100 vectors of 65536 samples, each
  a fresh segment of the generator's stream after the 65536 samples of \<open>CVZ\<close>, and
  returns one score per vector, none of them an error. Each score is the correlation of
  the vector with the flattened reference watermark \<open>CVZ\<close> itself, which is what line 236
  passes; the watermark extracted from the embedding does not enter.
\<close>

theorem false_detection_against_reference_watermark:
  "\<exists>scores. false_detection_proximity_array g = Inr scores
      \<and> length scores = 100
      \<and> false_detection_cvz g = map (\<lambda>k. map (\<lambda>i. g (65536 * (k + 1) + i)) [0..<65536]) [0..<100]
      \<and> map length (false_detection_cvz g) = replicate 100 65536
      \<and> map Inr scores = map (calculate_proximity (flatten (fst (draw_CVZ g)))) (false_detection_cvz g)"
proof -
  let ?cvz = "flatten (fst (draw_CVZ g))"
  have len: "length ?cvz = 65536" "?cvz \<noteq> []"
    by (auto simp add: flatten_draw_CVZ simp del: upt_Suc)
  have ds: "\<forall>d\<in>set (false_detection_cvz g). length d = 65536"
    by (auto simp: false_detection_cvz_eq simp del: upt_Suc)
  have "\<forall>d\<in>set (false_detection_cvz g). \<exists>x. calculate_proximity ?cvz d = Inr x"
    using ds len proximity_total[of ?cvz] by simp
  then obtain scores where s: "detect_false_proximity (false_detection_cvz g) ?cvz = Inr scores"
      "map Inr scores = map (calculate_proximity ?cvz) (false_detection_cvz g)"
    using detect_false_proximity_scores by blast
  have "length (map (Inr :: np_float \<Rightarrow> py_error + np_float) scores) = length (false_detection_cvz g)"
    using s(2) by simp
  then have l: "length scores = 100" by (simp add: false_detection_cvz_eq del: upt_Suc)
  have ml: "map length (false_detection_cvz g) = replicate 100 65536"
    by (simp add: false_detection_cvz_eq comp_def map_replicate_const del: upt_Suc)
  show ?thesis
    using s l ml false_detection_cvz_eq[of g] unfolding false_detection_proximity_array_def by blast
qed

lemma length_concat_shape: "has_shape r c A \<Longrightarrow> length (concat A) = r * c"
proof (induction A arbitrary: r)
  case Nil
  then show ?case by (simp add: has_shape_def)
next
  case (Cons a A)
  then obtain r' where r: "r = Suc r'" "has_shape r' c A" "length a = c"
    by (cases r) (auto simp: has_shape_def)
  then show ?case using Cons.IH[of r'] by simp
qed

lemma proximity_self:
  assumes "\<exists>x\<in>set a. x \<noteq> 0"
  shows "calculate_proximity a a = Inr (Num 1)"
proof -
  let ?A = "sum_list (map (\<lambda>x. x\<^sup>2) a)"
  have A: "0 < ?A" using assms sum_sq_nonneg[of a] sum_sq_zero_iff[of a] by fastforce
  have ne: "a \<noteq> []" using assms by auto
  have rA: "?A powr (1 / 2) = sqrt ?A" using A by (simp add: powr_half_sqrt)
  have "sum_list (map2 (*) a a) = ?A"
    by (simp add: zip_same_conv_map power2_eq_square comp_def)
  moreover have "sqrt ?A * sqrt ?A = ?A" using A by simp
  moreover have "?A \<noteq> 0" using A by simp
  ultimately show ?thesis
    using ne by (simp add: calculate_proximity_def np_binop1_same_length np_true_divide_def rA)
qed

lemma detect_false_proximity_replicate:
  "calculate_proximity cvz d = Inr x \<Longrightarrow>
   detect_false_proximity (replicate n d) cvz = Inr (replicate n x)"
  by (induction n) simp_all

lemma flat_env_run:
  assumes big: "384 \<le> r" "384 \<le> c" and W: "has_shape 256 256 cvz"
  shows "\<exists>s. embed_image (flat_env w) cvz (replicate r (replicate c 0)) = Inr s \<and> CVZ s = cvz
           \<and> reverse_array s = replicate r (replicate c w)
           \<and> extract_cvz (flat_env w) s (reverse_array s) =
               Inr (replicate 256 (replicate 256 (uint8_value w)))"
proof -
  let ?img = "replicate r (replicate c (0::uint8))"
  have Xeq: "fft2 (flat_env w) ?img = replicate r (replicate c 0)"
    by (simp add: flat_env_def)
  have X: "has_shape r c (fft2 (flat_env w) ?img)"
    by (simp only: Xeq has_shape_replicate)
  from embed_image_result[OF X big W] obtain s Z where
    s: "embed_image (flat_env w) cvz ?img = Inr s"
       "heap s (phase_array s) = map (map Arg) (fft2 (flat_env w) ?img)"
       "heap s (original_abs_spectrum s) = map (map cmod) (fft2 (flat_env w) ?img)"
       "CVZ s = cvz" "has_shape r c Z"
       "reverse_array s = png_round_trip (flat_env w) (map (map cmod) (ifft2 (flat_env w) Z))"
    by blast
  have rev: "reverse_array s = replicate r (replicate c w)"
    using const_map_shape[OF has_shape_map[OF s(5), of cmod]] by (simp add: s(6) flat_env_def)
  have P: "heap s (phase_array s) = replicate r (replicate c 0)"
    by (simp add: s(2) Xeq Arg_zero)
  have Or: "heap s (original_abs_spectrum s) = replicate r (replicate c 0)"
    by (simp add: s(3) Xeq)
  have X2: "fft2 (flat_env w) (reverse_array s) = replicate r (replicate c (of_nat (unat w)))"
    by (simp add: rev flat_env_def)
  have hs: "has_shape r c (heap s (phase_array s))" "has_shape r c (heap s (original_abs_spectrum s))"
      "has_shape r c (fft2 (flat_env w) (reverse_array s))"
    by (simp_all only: P Or X2 has_shape_replicate)
  have mins: "min 256 (r - 128) = 256" "min 256 (c - 128) = 256" using big by simp_all
  have "extract_cvz (flat_env w) s (reverse_array s) =
          Inr (replicate 256 (replicate 256 (uint8_value w)))"
    unfolding extract_cvz_result[OF hs big] P Or X2
    by (simp add: zip_replicate mins ALPHA_def uint8_value_def del: of_nat_unat)
  then show ?thesis using s(1,4) rev by blast
qed

lemma flat_env_trial_blank:
  assumes big: "384 \<le> r" "384 \<le> c" and W: "has_shape 256 256 cvz"
  shows "alpha_trial (flat_env 0) cvz (replicate r (replicate c 0)) alpha =
           Inr (NaN, replicate r (replicate c 0))"
proof -
  from flat_env_run[OF assms, of 0] obtain s where
    s: "embed_image (flat_env 0) cvz (replicate r (replicate c 0)) = Inr s" "CVZ s = cvz"
       "reverse_array s = replicate r (replicate c 0)"
       "extract_cvz (flat_env 0) s (reverse_array s) = Inr (replicate 256 (replicate 256 (uint8_value 0)))"
    by blast
  have u: "uint8_value 0 = 0" by (simp add: uint8_value_def)
  have l: "length (flatten cvz) = length (flatten (replicate 256 (replicate 256 (0::real))))"
    using length_concat_shape[OF W] length_concat_shape[OF has_shape_replicate[of 256 256 "0::real"]]
    by (simp only: flatten_def)
  have "length (flatten cvz) \<noteq> 0" using length_concat_shape[OF W] by (simp add: flatten_def)
  then have ne: "flatten cvz \<noteq> []" by (simp only: length_0_conv not_False_eq_True)
  have z: "\<forall>x\<in>set (flatten (replicate 256 (replicate 256 (0::real)))). x = 0"
    by (auto simp: flatten_def)
  have "calculate_proximity (flatten cvz) (flatten (replicate 256 (replicate 256 0))) = Inr NaN"
    using proximity_zero_norm[OF l ne] z by blast
  then have "extract_proximity (flat_env 0) s (reverse_array s) = Inr NaN"
    by (simp add: extract_proximity_def s(2,4) u)
  then show ?thesis by (simp add: alpha_trial_def s(1,3))
qed

lemma flat_env_trial_white:
  assumes big: "384 \<le> r" "384 \<le> c"
  shows "alpha_trial (flat_env 1) (replicate 256 (replicate 256 1)) (replicate r (replicate c 0)) alpha =
           Inr (Num 1, replicate r (replicate c 1))"
proof -
  let ?cvz = "replicate 256 (replicate 256 (1::real))"
  from flat_env_run[OF assms has_shape_replicate[of 256 256 "1::real"], of 1] obtain s where
    s: "embed_image (flat_env 1) ?cvz (replicate r (replicate c 0)) = Inr s" "CVZ s = ?cvz"
       "reverse_array s = replicate r (replicate c 1)"
       "extract_cvz (flat_env 1) s (reverse_array s) = Inr (replicate 256 (replicate 256 (uint8_value 1)))"
    by blast
  have u: "uint8_value 1 = 1" by (simp add: uint8_value_def)
  have "calculate_proximity (flatten ?cvz) (flatten ?cvz) = Inr (Num 1)"
    by (rule proximity_self) (simp add: flatten_def)
  then have "extract_proximity (flat_env 1) s (reverse_array s) = Inr (Num 1)"
    by (simp add: extract_proximity_def s(2,4) u)
  then show ?thesis by (simp add: alpha_trial_def s(1,3))
qed

lemma psnr_black_white:
  assumes "0 < r" "0 < c"
  shows "calculate_psnr_alternative uint8_value (replicate r (replicate c 0)) (replicate r (replicate c 1))
           = Inr (Num (10 * log 10 65025))"
proof -
  have d: "np_binop2 (-) (replicate r (replicate c (0::uint8))) (replicate r (replicate c 1)) =
             Inr (replicate r (replicate c (- 1)))"
  proof -
    have "np_binop2 (-) (replicate r (replicate c (0::uint8))) (replicate r (replicate c 1)) =
            Inr (map2 (map2 (-)) (replicate r (replicate c (0::uint8))) (replicate r (replicate c 1)))"
      by (rule np_binop2_same_shape[OF has_shape_replicate has_shape_replicate assms(1)])
    then show ?thesis by (simp add: zip_replicate)
  qed
  have l: "length (concat (replicate r (replicate c (1::real)))) = r * c"
    using length_concat_shape[OF has_shape_replicate[of r c "1::real"]] .
  have f: "map uint8_value (flatten (map (map (\<lambda>x. x\<^sup>2)) (replicate r (replicate c (- 1))))) =
           replicate (r * c) 1"
    using concat_zero_rows[of "1::real" "replicate r (replicate c (1::real))"] l
    by (simp add: flatten_def uint8_value_def map_concat)
  have "squared_error uint8_value (replicate r (replicate c 0)) (replicate r (replicate c 1)) =
          Inr (np_mean (map uint8_value (flatten (map (map (\<lambda>x. x\<^sup>2)) (replicate r (replicate c (- 1)))))))"
    by (simp only: squared_error_def d sum.case)
  also have "\<dots> = Inr (np_mean (replicate (r * c) 1))"
    by (simp only: f)
  also have "\<dots> = Inr (Num 1)"
    using assms by (simp add: np_mean_def np_true_divide_def sum_list_replicate)
  finally have "squared_error uint8_value (replicate r (replicate c 0)) (replicate r (replicate c 1)) = Inr (Num 1)" .
  then show ?thesis
    by (simp add: calculate_psnr_alternative_def np_true_divide_def)
qed

text \<open>
  Claim C2 as stated fails. With a generator that always delivers 1 and the library
  instance \<open>flat_env 0\<close>, on a black 512 by 512 image, the script reports the score 1
  for every vector, while the watermark it extracts from its embedding is the zero
  array, whose correlation with every vector is \<open>nan\<close>.
\<close>

theorem false_detection_against_reference_watermark_counterexample:
  "false_detection_proximity_array (\<lambda>_. 1) = Inr (replicate 100 (Num 1))
   \<and> included_cvz (flat_env 0) (\<lambda>_. 1) (replicate 512 (replicate 512 0)) = Inr (replicate 256 (replicate 256 0))
   \<and> map (calculate_proximity (flatten (replicate 256 (replicate 256 0)))) (false_detection_cvz (\<lambda>_. 1))
       = replicate 100 (Inr NaN)"
proof -
  let ?g = "\<lambda>_::nat. 1::real"
  have cvz: "flatten (fst (draw_CVZ ?g)) = replicate 65536 1"
    by (simp add: flatten_draw_CVZ map_replicate_const del: upt_Suc)
  have ds: "false_detection_cvz ?g = replicate 100 (replicate 65536 1)"
    by (simp add: false_detection_cvz_eq map_replicate_const del: upt_Suc)
  have one: "calculate_proximity (replicate 65536 1) (replicate 65536 1) = Inr (Num 1)"
    by (rule proximity_self) simp
  have a: "false_detection_proximity_array ?g = Inr (replicate 100 (Num 1))"
    unfolding false_detection_proximity_array_def cvz ds
    by (rule detect_false_proximity_replicate[OF one])
  have u: "uint8_value 0 = 0" by (simp add: uint8_value_def)
  from flat_env_run[OF _ _ draw_CVZ_shape[of ?g], of 512 512 0]
  obtain s where s: "embed_image (flat_env 0) (fst (draw_CVZ ?g)) (replicate 512 (replicate 512 0)) = Inr s"
      "extract_cvz (flat_env 0) s (reverse_array s) = Inr (replicate 256 (replicate 256 0))"
    by (auto simp: u)
  have b: "included_cvz (flat_env 0) ?g (replicate 512 (replicate 512 0)) = Inr (replicate 256 (replicate 256 0))"
    by (simp add: included_cvz_def s)
  have l: "length (flatten (replicate 256 (replicate 256 (0::real)))) = length (replicate 65536 (1::real))"
    using length_concat_shape[OF has_shape_replicate[of 256 256 "0::real"]] by (simp add: flatten_def)
  have "length (flatten (replicate 256 (replicate 256 (0::real)))) \<noteq> 0" using l by simp
  then have ne: "flatten (replicate 256 (replicate 256 (0::real))) \<noteq> []"
    by (simp only: length_0_conv not_False_eq_True)
  have z: "\<forall>x\<in>set (flatten (replicate 256 (replicate 256 (0::real)))). x = 0"
    by (auto simp: flatten_def)
  have nan: "calculate_proximity (flatten (replicate 256 (replicate 256 0))) (replicate 65536 1) = Inr NaN"
    using proximity_zero_norm[OF l ne] z by blast
  have c: "map (calculate_proximity (flatten (replicate 256 (replicate 256 0)))) (false_detection_cvz ?g)
            = replicate 100 (Inr NaN)"
    by (simp only: ds map_replicate nan)
  show ?thesis using a b c by (intro conjI)
qed

section \<open>Properties: search for the embedding strength\<close>

lemma upt_10: "[0..<10] = [0, 1, 2, 3, 4, 5, 6, 7, 8, 9]"
  by code_simp

lemma alpha_grid: "py_range 1 1001 100 = [1, 101, 201, 301, 401, 501, 601, 701, 801, 901]"
  by (simp add: py_range_def upt_10)

lemma np_greater_irrefl [simp]: "\<not> np_greater q q"
  by (cases q) simp_all

lemma alpha_trial_any: "alpha_trial E cvz img a = alpha_trial E cvz img b"
  by (simp add: alpha_trial_def)

lemma alpha_trial_after_embedding:
  "alpha_trial E cvz img alpha =
     (case alpha_embedding E cvz img alpha of
        Inl e \<Rightarrow> Inl e
      | Inr s \<Rightarrow>
          (case reconstruct E s of
             Inl e \<Rightarrow> Inl e
           | Inr s' \<Rightarrow>
               (case extract_proximity E s' (reverse_array s') of
                  Inl e \<Rightarrow> Inl e
                | Inr p \<Rightarrow> Inr (p, reverse_array s'))))"
  by (simp add: alpha_trial_def alpha_embedding_def embed_image_def split: sum.splits)

lemma step_no_detection:
  assumes "alpha_trial E cvz img alpha = Inr (p, ra)" "process_threshold p = 0"
  shows "select_best_alpha_step E cvz img alpha st = Inr st"
  using assms by (simp add: select_best_alpha_step_def)

lemma step_no_improvement:
  assumes "alpha_trial E cvz img alpha = Inr (p, ra)"
    and "calculate_psnr_alternative uint8_value img ra = Inr new_psnr"
    and "\<not> np_greater new_psnr psnr"
  shows "select_best_alpha_step E cvz img alpha (psnr, best_alpha, best_proximities) =
           Inr (psnr, best_alpha, best_proximities)"
  using assms by (simp add: select_best_alpha_step_def)

lemma loop_fixed:
  assumes "\<forall>alpha\<in>set grid. select_best_alpha_step E cvz img alpha st = Inr st"
  shows "select_best_alpha_loop E cvz img grid st = Inr st"
  using assms by (induction grid) simp_all

lemma step_idem:
  assumes "select_best_alpha_step E cvz img a st0 = Inr st1"
  shows "select_best_alpha_step E cvz img b st1 = Inr st1"
proof (cases "alpha_trial E cvz img a")
  case (Inl e)
  then show ?thesis using assms by (simp add: select_best_alpha_step_def)
next
  case (Inr t)
  obtain p ra where t: "t = (p, ra)" by (cases t)
  have tb: "alpha_trial E cvz img b = Inr (p, ra)" using Inr t alpha_trial_any[of E cvz img b a] by simp
  obtain psnr0 a0 p0 where st0: "st0 = (psnr0, a0, p0)" by (cases st0)
  show ?thesis
  proof (cases "process_threshold p = 0")
    case True
    then have "st1 = st0" using assms Inr t by (simp add: select_best_alpha_step_def)
    then show ?thesis using step_no_detection[OF tb True] by simp
  next
    case False
    show ?thesis
    proof (cases "calculate_psnr_alternative uint8_value img ra")
      case (Inl e)
      then show ?thesis using assms Inr t False by (simp add: select_best_alpha_step_def)
    next
      case q: (Inr q)
      show ?thesis
      proof (cases "np_greater q psnr0")
        case True
        then have "st1 = (q, a, p)"
          using assms Inr t False q st0 by (simp add: select_best_alpha_step_def)
        then show ?thesis using step_no_improvement[OF tb q, of q a p] by simp
      next
        case ng: False
        then have "st1 = st0"
          using assms Inr t False q st0 by (simp add: select_best_alpha_step_def)
        then show ?thesis using step_no_improvement[OF tb q ng] st0 by simp
      qed
    qed
  qed
qed

lemma loop_first_only:
  "select_best_alpha_loop E cvz img (a # rest) st = select_best_alpha_loop E cvz img [a] st"
proof (cases "select_best_alpha_step E cvz img a st")
  case (Inl e)
  then show ?thesis by simp
next
  case (Inr st1)
  have "\<forall>b\<in>set rest. select_best_alpha_step E cvz img b st1 = Inr st1"
    using step_idem[OF Inr] by simp
  then show ?thesis using Inr loop_fixed[of rest E cvz img st1] by simp
qed

text \<open>
  Claim C1, at a failing input. In the iteration for the candidate 101 the embedding is
  the one of the script, whose strength is the constant \<open>ALPHA\<close>, that is 1, not 101: the
  loop variable is never read. So the iteration for 101 computes what the iteration for
  1 computes, and the search over the whole grid returns what the search over the
  single candidate 1 returns.
\<close>

theorem select_best_alpha_embeds_with_ALPHA:
  "ALPHA = 1
   \<and> alpha_trial E cvz img 101 =
     (case embed (decompose (fft2 E img) (initial_state cvz img)) of
        Inl e \<Rightarrow> Inl e
      | Inr s \<Rightarrow>
          (case reconstruct E s of
             Inl e \<Rightarrow> Inl e
           | Inr s' \<Rightarrow>
               (case extract_proximity E s' (reverse_array s') of
                  Inl e \<Rightarrow> Inl e
                | Inr p \<Rightarrow> Inr (p, reverse_array s'))))
   \<and> alpha_trial E cvz img 101 = alpha_trial E cvz img 1
   \<and> select_best_alpha E cvz img =
       (case select_best_alpha_loop E cvz img [1] (Num 0, 0, Num 0) of
          Inl e \<Rightarrow> Inl e
        | Inr (psnr, best_alpha, best_proximities) \<Rightarrow> Inr (best_alpha, psnr, best_proximities))"
proof (intro conjI)
  show "ALPHA = 1" by (simp add: ALPHA_def)
next
  show "alpha_trial E cvz img 101 =
     (case embed (decompose (fft2 E img) (initial_state cvz img)) of
        Inl e \<Rightarrow> Inl e
      | Inr s \<Rightarrow>
          (case reconstruct E s of
             Inl e \<Rightarrow> Inl e
           | Inr s' \<Rightarrow>
               (case extract_proximity E s' (reverse_array s') of
                  Inl e \<Rightarrow> Inl e
                | Inr p \<Rightarrow> Inr (p, reverse_array s'))))"
    by (simp add: alpha_trial_def embed_image_def split: sum.splits)
next
  show "alpha_trial E cvz img 101 = alpha_trial E cvz img 1"
    by (rule alpha_trial_any)
next
  show "select_best_alpha E cvz img =
       (case select_best_alpha_loop E cvz img [1] (Num 0, 0, Num 0) of
          Inl e \<Rightarrow> Inl e
        | Inr (psnr, best_alpha, best_proximities) \<Rightarrow> Inr (best_alpha, psnr, best_proximities))"
    unfolding select_best_alpha_def alpha_grid
    by (simp only: loop_first_only[of E cvz img 1 "[101, 201, 301, 401, 501, 601, 701, 801, 901]"])
qed

text \<open>
  Claim C9. If every candidate of the grid is tried without detection, the function
  returns \<open>(0, 0, 0)\<close>. A step whose new PSNR is not strictly greater than the held one
  leaves the held triple as it is, and a PSNR is never strictly greater than itself, so
  a tie keeps the earlier candidate.
\<close>

theorem select_best_alpha_defaults_and_ties:
  "((\<forall>alpha\<in>set (py_range 1 1001 100).
        \<exists>p ra. alpha_trial E cvz img alpha = Inr (p, ra) \<and> process_threshold p = 0)
      \<longrightarrow> select_best_alpha E cvz img = Inr (0, Num 0, Num 0))
   \<and> (\<forall>alpha p ra new_psnr psnr best_alpha best_proximities.
        alpha_trial E cvz img alpha = Inr (p, ra)
        \<longrightarrow> calculate_psnr_alternative uint8_value img ra = Inr new_psnr
        \<longrightarrow> \<not> np_greater new_psnr psnr
        \<longrightarrow> select_best_alpha_step E cvz img alpha (psnr, best_alpha, best_proximities)
              = Inr (psnr, best_alpha, best_proximities))
   \<and> (\<forall>q. \<not> np_greater q q)"
proof (intro conjI impI allI)
  assume h: "\<forall>alpha\<in>set (py_range 1 1001 100).
        \<exists>p ra. alpha_trial E cvz img alpha = Inr (p, ra) \<and> process_threshold p = 0"
  have "\<forall>alpha\<in>set (py_range 1 1001 100).
          select_best_alpha_step E cvz img alpha (Num 0, 0, Num 0) = Inr (Num 0, 0, Num 0)"
    using h step_no_detection by blast
  then have "select_best_alpha_loop E cvz img (py_range 1 1001 100) (Num 0, 0, Num 0) = Inr (Num 0, 0, Num 0)"
    by (rule loop_fixed)
  then show "select_best_alpha E cvz img = Inr (0, Num 0, Num 0)"
    by (simp add: select_best_alpha_def)
next
  fix alpha p ra new_psnr psnr best_alpha best_proximities
  assume "alpha_trial E cvz img alpha = Inr (p, ra)"
    "calculate_psnr_alternative uint8_value img ra = Inr new_psnr"
    "\<not> np_greater new_psnr psnr"
  then show "select_best_alpha_step E cvz img alpha (psnr, best_alpha, best_proximities)
              = Inr (psnr, best_alpha, best_proximities)"
    by (rule step_no_improvement)
next
  fix q show "\<not> np_greater q q" by simp
qed

theorem select_best_alpha_defaults_and_ties_witness:
  "select_best_alpha (flat_env 0) (replicate 256 (replicate 256 1)) (replicate 512 (replicate 512 0))
     = Inr (0, Num 0, Num 0)
   \<and> select_best_alpha_step (flat_env 1) (replicate 256 (replicate 256 1)) (replicate 512 (replicate 512 0))
       101 (Num (10 * log 10 65025), 1, Num 1) = Inr (Num (10 * log 10 65025), 1, Num 1)
   \<and> select_best_alpha (flat_env 1) (replicate 256 (replicate 256 1)) (replicate 512 (replicate 512 0))
     = Inr (1, Num (10 * log 10 65025), Num 1)"
proof -
  let ?cvz = "replicate 256 (replicate 256 (1::real))"
  let ?img = "replicate 512 (replicate 512 (0::uint8))"
  let ?q = "Num (10 * log 10 65025)"
  have t0: "\<And>alpha. alpha_trial (flat_env 0) ?cvz ?img alpha = Inr (NaN, ?img)"
    using flat_env_trial_blank[OF _ _ has_shape_replicate[of 256 256 "1::real"], of 512 512] by simp
  have nd: "process_threshold NaN = 0" by (simp add: process_threshold_def)
  have h1: "\<forall>alpha\<in>set (py_range 1 1001 100).
        \<exists>p ra. alpha_trial (flat_env 0) ?cvz ?img alpha = Inr (p, ra) \<and> process_threshold p = 0"
    using t0 nd by blast
  from select_best_alpha_defaults_and_ties[of "flat_env 0" ?cvz ?img] h1
  have a: "select_best_alpha (flat_env 0) ?cvz ?img = Inr (0, Num 0, Num 0)" by blast
  have t1: "\<And>alpha. alpha_trial (flat_env 1) ?cvz ?img alpha = Inr (Num 1, replicate 512 (replicate 512 1))"
    using flat_env_trial_white[of 512 512] by simp
  have q: "calculate_psnr_alternative uint8_value ?img (replicate 512 (replicate 512 1)) = Inr ?q"
    using psnr_black_white[of 512 512] by simp
  have ng: "\<not> np_greater ?q ?q" by simp
  from select_best_alpha_defaults_and_ties[of "flat_env 1" ?cvz ?img] t1[of 101] q ng
  have b: "select_best_alpha_step (flat_env 1) ?cvz ?img 101 (?q, 1, Num 1) = Inr (?q, 1, Num 1)"
    by blast
  have det: "process_threshold (Num 1) \<noteq> 0" by (simp add: process_threshold_def)
  have "(1::real) < 65025" by simp
  then have "0 < log 10 65025" by (simp only: zero_less_log_cancel_iff one_less_numeral_iff semiring_norm)
  then have gt: "np_greater ?q (Num 0)" by simp
  have first: "select_best_alpha_step (flat_env 1) ?cvz ?img 1 (Num 0, 0, Num 0) = Inr (?q, 1, Num 1)"
    using det gt by (simp add: select_best_alpha_step_def t1 q)
  have "select_best_alpha_loop (flat_env 1) ?cvz ?img (py_range 1 1001 100) (Num 0, 0, Num 0) =
          select_best_alpha_loop (flat_env 1) ?cvz ?img [1] (Num 0, 0, Num 0)"
    unfolding alpha_grid by (rule loop_first_only)
  then have c: "select_best_alpha (flat_env 1) ?cvz ?img = Inr (1, ?q, Num 1)"
    by (simp add: select_best_alpha_def first)
  show ?thesis using a b c by (intro conjI)
qed

end
